theory Spec2Isabelle
  imports Main "HOL-Library.Sublist"
begin

section \<open>Strings, paths and the file system\<close>

text \<open>
  A JavaScript string is modelled as a \<^typ>\<open>string\<close>: the list of its code units, each
  below 256 (the ASCII and Latin-1 range). The two line terminators of that range are
  line feed and carriage return; a regular expression's \<^verbatim>\<open>.\<close> matches every code unit
  but a line terminator. A file's content (a Buffer) is a list of bytes, also a
  \<^typ>\<open>string\<close>.
\<close>

definition is_line_terminator :: "char \<Rightarrow> bool" where
  "is_line_terminator c = (c = CHR 0x0A \<or> c = CHR 0x0D)"

text \<open>\<^verbatim>\<open>s.split(d)\<close> for a one-character separator: never empty.\<close>

fun split_on :: "char \<Rightarrow> string \<Rightarrow> string list" where
  "split_on d [] = [[]]"
| "split_on d (c # cs) =
     (if c = d then [] # split_on d cs
      else (case split_on d cs of [] \<Rightarrow> [[c]] | x # xs \<Rightarrow> (c # x) # xs))"

text \<open>
  Node's posix \<^verbatim>\<open>path\<close> module. \<^verbatim>\<open>normalizeString\<close> walks the components of an
  absolute path: empty components and \<^verbatim>\<open>.\<close> are dropped, \<^verbatim>\<open>..\<close> removes the
  component before it (and nothing at the root).
\<close>

definition norm_step :: "string list \<Rightarrow> string \<Rightarrow> string list" where
  "norm_step st seg =
     (if seg = [] \<or> seg = ''.'' then st
      else if seg = ''..'' then butlast st
      else st @ [seg])"

fun join_slash :: "string list \<Rightarrow> string" where
  "join_slash [] = []"
| "join_slash [x] = x"
| "join_slash (x # y # ys) = x @ ''/'' @ join_slash (y # ys)"

definition normalize_abs :: "string \<Rightarrow> string" where
  "normalize_abs p = ''/'' @ join_slash (foldl norm_step [] (split_on CHR ''/'' p))"

text \<open>
  \<^verbatim>\<open>path.resolve(base, rel)\<close> for an absolute \<^verbatim>\<open>base\<close> (\<^verbatim>\<open>__dirname\<close> and
  \<^verbatim>\<open>INPUT_DIR\<close> are absolute): an absolute \<^verbatim>\<open>rel\<close> replaces the base, an empty one
  is skipped, any other is appended; the result is normalized.
\<close>

definition path_resolve :: "string \<Rightarrow> string \<Rightarrow> string" where
  "path_resolve base rel =
     (if rel = [] then normalize_abs base
      else if hd rel = CHR ''/'' then normalize_abs rel
      else normalize_abs (base @ ''/'' @ rel))"

text \<open>
  \<^verbatim>\<open>path.extname(p)\<close>: the text from the last dot of the last component of
  \<^verbatim>\<open>p\<close> (trailing slashes ignored) to its end; empty when that component has no
  dot, starts with its only candidate dot (as \<^verbatim>\<open>.bashrc\<close> does), or is
  \<^verbatim>\<open>..\<close>.
\<close>

definition last_component :: "string \<Rightarrow> string" where
  "last_component p =
     (case filter (\<lambda>s. s \<noteq> []) (split_on CHR ''/'' p) of
        [] \<Rightarrow> []
      | x # xs \<Rightarrow> last (x # xs))"

fun last_dot :: "string \<Rightarrow> nat option" where
  "last_dot [] = None"
| "last_dot (c # cs) =
     (case last_dot cs of
        Some i \<Rightarrow> Some (Suc i)
      | None \<Rightarrow> if c = CHR ''.'' then Some 0 else None)"

definition extname :: "string \<Rightarrow> string" where
  "extname p =
     (let b = last_component p in
      case last_dot b of
        None \<Rightarrow> []
      | Some i \<Rightarrow> if i = 0 \<or> b = ''..'' then [] else drop i b)"

text \<open>
  The file system as the program reads it: \<^verbatim>\<open>fs.readFileSync\<close> either throws
  or returns the bytes of the file.
\<close>

datatype js_error =
  FileError | LaunchError | PageError | ContentError | PdfError | CloseError

type_synonym filesystem = "string \<Rightarrow> js_error + string"

section \<open>Base64 and \<^verbatim>\<open>imageToBase64\<close>\<close>

definition b64_alphabet :: string where
  "b64_alphabet =
     ''ABCDEFGHIJKLMNOPQRSTUVWXYZabcdefghijklmnopqrstuvwxyz0123456789+/''"

definition b64_char :: "nat \<Rightarrow> char" where
  "b64_char n = b64_alphabet ! (n mod 64)"

text \<open>\<^verbatim>\<open>buffer.toString("base64")\<close>: three bytes to four characters, padded with \<^verbatim>\<open>=\<close>.\<close>

fun base64 :: "string \<Rightarrow> string" where
  "base64 [] = []"
| "base64 [a] =
     (let n = of_char a * (65536::nat)
      in [b64_char (n div 262144), b64_char (n div 4096), CHR ''='', CHR ''=''])"
| "base64 [a, b] =
     (let n = of_char a * (65536::nat) + of_char b * 256
      in [b64_char (n div 262144), b64_char (n div 4096), b64_char (n div 64), CHR ''=''])"
| "base64 (a # b # c # rest) =
     (let n = of_char a * (65536::nat) + of_char b * 256 + of_char c
      in [b64_char (n div 262144), b64_char (n div 4096), b64_char (n div 64), b64_char n])
     @ base64 rest"

definition mimeType :: "string \<Rightarrow> string" where
  "mimeType ext = ''image/'' @ (if ext = ''jpg'' then ''jpeg'' else ext)"

text \<open>
  The body of the \<^verbatim>\<open>try\<close> block of \<^verbatim>\<open>imageToBase64\<close>: the read may throw.
\<close>

definition imageToBase64_try :: "filesystem \<Rightarrow> string \<Rightarrow> js_error + string" where
  "imageToBase64_try fs imgPath =
     (case fs imgPath of
        Inl e \<Rightarrow> Inl e
      | Inr imgBuffer \<Rightarrow>
          (let ext = drop 1 (extname imgPath)
           in Inr (''data:'' @ mimeType ext @ '';base64,'' @ base64 imgBuffer)))"

text \<open>
  \<^verbatim>\<open>imageToBase64\<close>: the \<^verbatim>\<open>catch\<close> turns every exception of the body into
  \<^verbatim>\<open>null\<close> (after a line on the error console, which no claim reads). The result type
  keeps a place for an exception that would leave the function.
\<close>

definition imageToBase64 :: "filesystem \<Rightarrow> string \<Rightarrow> js_error + string option" where
  "imageToBase64 fs imgPath =
     (case imageToBase64_try fs imgPath of
        Inl e \<Rightarrow> Inr None
      | Inr uri \<Rightarrow> Inr (Some uri))"

section \<open>The image inliner\<close>

text \<open>
  The regular expression
  \<^verbatim>\<open>/!\[.*?\]\((\.\/.*?\.(png|jpg|jpeg|gif|svg))\)/g\<close>
  as the backtracking matcher runs it at one start position. The alternatives of the
  extension are tried in their order, each followed by the closing parenthesis.
\<close>

definition exts :: "string list" where
  "exts = [''png'', ''jpg'', ''jpeg'', ''gif'', ''svg'']"

fun match_ext :: "string list \<Rightarrow> string \<Rightarrow> string option" where
  "match_ext [] s = None"
| "match_ext (e # es) s =
     (if prefix (''.'' @ e @ '')'') s then Some e else match_ext es s)"

text \<open>
  The lazy \<^verbatim>\<open>.*?\<close> of the path: \<^verbatim>\<open>acc\<close> is what it has consumed; it grows by one
  character that is no line terminator whenever the rest of the pattern fails here.
\<close>

fun match_path :: "string \<Rightarrow> string \<Rightarrow> (string \<times> string) option" where
  "match_path acc [] = None"
| "match_path acc (c # cs) =
     (case match_ext exts (c # cs) of
        Some e \<Rightarrow> Some (acc, e)
      | None \<Rightarrow> if is_line_terminator c then None else match_path (acc @ [c]) cs)"

text \<open>
  The lazy \<^verbatim>\<open>.*?\<close> of the alt text, followed by \<^verbatim>\<open>](./\<close> and the path. A path
  that fails sends the matcher back to a longer alt text.
\<close>

definition match_after_alt :: "string \<Rightarrow> (string \<times> string) option" where
  "match_after_alt s = (if prefix ''](./'' s then match_path [] (drop 4 s) else None)"

fun match_alt :: "string \<Rightarrow> string \<Rightarrow> (string \<times> string \<times> string) option" where
  "match_alt acc [] = None"
| "match_alt acc (c # cs) =
     (case match_after_alt (c # cs) of
        Some (stem, e) \<Rightarrow> Some (acc, stem, e)
      | None \<Rightarrow> if is_line_terminator c then None else match_alt (acc @ [c]) cs)"

text \<open>
  A match at the head of \<^verbatim>\<open>s\<close>: the alt text, and the path between \<^verbatim>\<open>./\<close> and
  the extension, and the extension.
\<close>

definition regex_exec_here :: "string \<Rightarrow> (string \<times> string \<times> string) option" where
  "regex_exec_here s = (if prefix ''!['' s then match_alt [] (drop 2 s) else None)"

text \<open>The first capture group and the whole matched text of a match.\<close>

definition capture_path :: "string \<Rightarrow> string \<Rightarrow> string" where
  "capture_path stem e = ''./'' @ stem @ ''.'' @ e"

definition match_text :: "string \<Rightarrow> string \<Rightarrow> string" where
  "match_text alt imgPath = ''!['' @ alt @ '']('' @ imgPath @ '')''"

text \<open>
  \<^verbatim>\<open>markdown.replace(regex, callback)\<close> first collects the matches from left to
  right, each search starting where the match before it ended; the text between matches
  is kept character by character.
\<close>

datatype segment = Plain char | Ref string string

function scan :: "string \<Rightarrow> segment list" where
  "scan [] = []"
| "scan (c # cs) =
     (case regex_exec_here (c # cs) of
        None \<Rightarrow> Plain c # scan cs
      | Some (alt, stem, e) \<Rightarrow>
          Ref alt (capture_path stem e)
          # scan (drop (length (match_text alt (capture_path stem e))) (c # cs)))"
  by pat_completeness auto
termination
  by (relation "measure length") (auto simp: match_text_def)

fun segment_source :: "segment \<Rightarrow> string" where
  "segment_source (Plain c) = [c]"
| "segment_source (Ref alt imgPath) = match_text alt imgPath"

text \<open>
  \<^verbatim>\<open>match.replace(imgPath, base64)\<close> with a string pattern: the first occurrence of
  the pattern is replaced. The replacement is a template: \<^verbatim>\<open>$$\<close> stands for a dollar,
  \<^verbatim>\<open>$&\<close> for the matched text, \<^verbatim>\<open>$`\<close> and \<^verbatim>\<open>$'\<close> for the text before and after
  it; with no capture groups every other \<^verbatim>\<open>$\<close> stands for itself.
\<close>

fun getSubstitution :: "string \<Rightarrow> string \<Rightarrow> string \<Rightarrow> string \<Rightarrow> string" where
  "getSubstitution m pre post [] = []"
| "getSubstitution m pre post [c] = [c]"
| "getSubstitution m pre post (c # d # cs) =
     (if c = CHR ''$'' \<and> d = CHR ''$'' then CHR ''$'' # getSubstitution m pre post cs
      else if c = CHR ''$'' \<and> d = CHR ''&'' then m @ getSubstitution m pre post cs
      else if c = CHR ''$'' \<and> d = CHR 0x60 then pre @ getSubstitution m pre post cs
      else if c = CHR ''$'' \<and> d = CHR 0x27 then post @ getSubstitution m pre post cs
      else c # getSubstitution m pre post (d # cs))"

fun string_replace_from :: "string \<Rightarrow> string \<Rightarrow> string \<Rightarrow> string \<Rightarrow> string" where
  "string_replace_from pre [] pat repl =
     (if pat = [] then getSubstitution pat pre [] repl else [])"
| "string_replace_from pre (c # cs) pat repl =
     (if prefix pat (c # cs)
      then getSubstitution pat pre (drop (length pat) (c # cs)) repl
           @ drop (length pat) (c # cs)
      else c # string_replace_from (pre @ [c]) cs pat repl)"

definition string_replace :: "string \<Rightarrow> string \<Rightarrow> string \<Rightarrow> string" where
  "string_replace s pat repl = string_replace_from [] s pat repl"

text \<open>
  The callback of the replace: a \<^verbatim>\<open>null\<close> (or empty, hence falsy) result keeps the
  match as it is.
\<close>

definition replacer :: "filesystem \<Rightarrow> string \<Rightarrow> string \<Rightarrow> string \<Rightarrow> js_error + string" where
  "replacer fs input_dir match imgPath =
     (let absolutePath = path_resolve input_dir imgPath
      in case imageToBase64 fs absolutePath of
           Inl e \<Rightarrow> Inl e
         | Inr None \<Rightarrow> Inr match
         | Inr (Some b64) \<Rightarrow>
             if b64 = [] then Inr match else Inr (string_replace match imgPath b64))"

fun render_segment :: "filesystem \<Rightarrow> string \<Rightarrow> segment \<Rightarrow> js_error + string" where
  "render_segment fs input_dir (Plain c) = Inr [c]"
| "render_segment fs input_dir (Ref alt imgPath) =
     replacer fs input_dir (match_text alt imgPath) imgPath"

text \<open>
  The second phase of the replace: the callback runs once per match, in order; an
  exception of the callback ends the replace.
\<close>

fun assemble :: "filesystem \<Rightarrow> string \<Rightarrow> segment list \<Rightarrow> js_error + string" where
  "assemble fs input_dir [] = Inr []"
| "assemble fs input_dir (g # gs) =
     (case render_segment fs input_dir g of
        Inl e \<Rightarrow> Inl e
      | Inr r \<Rightarrow>
          (case assemble fs input_dir gs of
             Inl e \<Rightarrow> Inl e
           | Inr rest \<Rightarrow> Inr (r @ rest)))"

definition inline_images :: "filesystem \<Rightarrow> string \<Rightarrow> string \<Rightarrow> js_error + string" where
  "inline_images fs input_dir markdown = assemble fs input_dir (scan markdown)"

text \<open>
  The value of the template literal of \<^verbatim>\<open>imageToBase64\<close> for an extension and the
  bytes of a file, and a file system that holds one readable file.
\<close>

definition data_uri :: "string \<Rightarrow> string \<Rightarrow> string" where
  "data_uri ext bytes = ''data:'' @ mimeType ext @ '';base64,'' @ base64 bytes"

definition fs_one :: "string \<Rightarrow> string \<Rightarrow> filesystem" where
  "fs_one path bytes = (\<lambda>p. if p = path then Inr bytes else Inl FileError)"

section \<open>Paper formats and the command line\<close>

datatype paper_format = A2 | A3 | A4 | A5

text \<open>The string a value of the type \<^verbatim>\<open>PaperFormat\<close> is.\<close>

fun format_name :: "paper_format \<Rightarrow> string" where
  "format_name A2 = ''A2''"
| "format_name A3 = ''A3''"
| "format_name A4 = ''A4''"
| "format_name A5 = ''A5''"

text \<open>
  \<^verbatim>\<open>toLowerCase\<close> and \<^verbatim>\<open>toUpperCase\<close> on the code units below 256: the ASCII and the
  Latin-1 letters. The sharp s becomes \<^verbatim>\<open>SS\<close>; the upper cases of the micro sign and
  of y with diaeresis lie beyond 255 and are left as they are (neither is a character of
  a format name).
\<close>

definition lower_char :: "char \<Rightarrow> char" where
  "lower_char c =
     (let n = of_char c :: nat
      in if (65 \<le> n \<and> n \<le> 90) \<or> (192 \<le> n \<and> n \<le> 222 \<and> n \<noteq> 215)
         then char_of (n + 32) else c)"

definition toLowerCase :: "string \<Rightarrow> string" where
  "toLowerCase s = map lower_char s"

definition upper_char :: "char \<Rightarrow> string" where
  "upper_char c =
     (let n = of_char c :: nat
      in if (97 \<le> n \<and> n \<le> 122) \<or> (224 \<le> n \<and> n \<le> 254 \<and> n \<noteq> 247)
         then [char_of (n - 32)]
         else if n = 223 then ''SS'' else [c])"

definition toUpperCase :: "string \<Rightarrow> string" where
  "toUpperCase s = concat (map upper_char s)"

text \<open>\<^verbatim>\<open>trim\<close>: white space and line terminators below 256.\<close>

definition is_js_space :: "char \<Rightarrow> bool" where
  "is_js_space c = (of_char c \<in> {9, 10, 11, 12, 13, 32, 160 :: nat})"

definition trim :: "string \<Rightarrow> string" where
  "trim s = rev (dropWhile is_js_space (rev (dropWhile is_js_space s)))"

text \<open>
  The replace of \<^verbatim>\<open>/\.md$/\<close>: without the multiline flag \<^verbatim>\<open>$\<close> is the end of the
  input, so the only match is \<^verbatim>\<open>.md\<close> as the last three characters. The replacement
  is a template, as in \<open>getSubstitution\<close>.
\<close>

fun replace_md_from :: "string \<Rightarrow> string \<Rightarrow> string \<Rightarrow> string" where
  "replace_md_from pre [] repl = []"
| "replace_md_from pre (c # cs) repl =
     (if c # cs = ''.md'' then getSubstitution ''.md'' pre [] repl
      else c # replace_md_from (pre @ [c]) cs repl)"

definition outputFileName :: "string \<Rightarrow> paper_format \<Rightarrow> string" where
  "outputFileName fileName format =
     replace_md_from [] fileName (''.'' @ toLowerCase (format_name format) @ ''.pdf'')"

text \<open>What the program writes to the console, by kind of line.\<close>

datatype log_msg =
  Banner | HelpText | InvalidFormat "string option" | PromptMenu | InvalidOption
  | FormatSelected paper_format

text \<open>\<^verbatim>\<open>Object.keys(formatConfigs).includes(format)\<close>, with the format it names.\<close>

definition parse_format :: "string \<Rightarrow> paper_format option" where
  "parse_format s =
     (if s = ''A2'' then Some A2 else if s = ''A3'' then Some A3
      else if s = ''A4'' then Some A4 else if s = ''A5'' then Some A5 else None)"

text \<open>
  \<^verbatim>\<open>getFormatFromArgs\<close>: the first argument after the two of \<^verbatim>\<open>process.argv\<close> that
  starts with \<^verbatim>\<open>--format=\<close>; of its pieces between equals signs the second one, in
  upper case (\<^verbatim>\<open>undefined\<close> when there is none).
\<close>

definition getFormatFromArgs :: "string list \<Rightarrow> paper_format option \<times> log_msg list" where
  "getFormatFromArgs argv =
     (let args = drop 2 argv
      in case find (prefix ''--format='') args of
           None \<Rightarrow> (None, [])
         | Some formatArg \<Rightarrow>
             (let format = (case split_on CHR ''='' formatArg of
                              k # v # rest \<Rightarrow> Some (toUpperCase v)
                            | _ \<Rightarrow> None)
              in case (case format of Some s \<Rightarrow> parse_format s | None \<Rightarrow> None) of
                   Some f \<Rightarrow> (Some f, [])
                 | None \<Rightarrow> (None, [InvalidFormat format])))"

text \<open>
  \<^verbatim>\<open>promptForFormat\<close>, given the line the user answers: the menu is printed, the
  answer trimmed, an empty answer read as \<^verbatim>\<open>3\<close>.
\<close>

definition promptForFormat :: "string \<Rightarrow> paper_format \<times> log_msg list" where
  "promptForFormat answer =
     (let choice = (if trim answer = [] then ''3'' else trim answer)
      in if choice = ''1'' then (A2, [PromptMenu])
         else if choice = ''2'' then (A3, [PromptMenu])
         else if choice = ''3'' then (A4, [PromptMenu])
         else if choice = ''4'' then (A5, [PromptMenu])
         else (A4, [PromptMenu, InvalidOption]))"

text \<open>
  The head of the main function, up to the selected format: help first, then the
  argument, then the prompt.
\<close>

datatype selection = HelpShown | Selected paper_format

definition main_format :: "string list \<Rightarrow> string \<Rightarrow> selection \<times> log_msg list" where
  "main_format argv answer =
     (if ''--help'' \<in> set argv \<or> ''-h'' \<in> set argv then (HelpShown, [Banner, HelpText])
      else case getFormatFromArgs argv of
             (Some f, l) \<Rightarrow> (Selected f, Banner # l @ [FormatSelected f])
           | (None, l) \<Rightarrow>
               (case promptForFormat answer of
                  (f, l') \<Rightarrow> (Selected f, Banner # l @ l' @ [FormatSelected f])))"

section \<open>The output directory\<close>

text \<open>
  The output directory is absent or holds a list of entry names. The environment says
  whether \<^verbatim>\<open>mkdirSync\<close> and \<^verbatim>\<open>readdirSync\<close> succeed and which entries
  \<^verbatim>\<open>unlinkSync\<close> can remove.
\<close>

record dir_env =
  mkdir_ok :: bool
  readdir_ok :: bool
  unlink_ok :: "string \<Rightarrow> bool"

datatype clean_log =
  DirCreated | AlreadyClean | Removed string | RemoveError string | CleanupDone nat
  | CleanupError

definition endsWith :: "string \<Rightarrow> string \<Rightarrow> bool" where
  "endsWith s suf = suffix suf s"

definition unlinkSync :: "dir_env \<Rightarrow> string \<Rightarrow> string list \<Rightarrow> js_error + string list" where
  "unlinkSync env file files =
     (if unlink_ok env file \<and> file \<in> set files then Inr (removeAll file files)
      else Inl FileError)"

text \<open>The \<^verbatim>\<open>forEach\<close> over the PDF files, each removal in its own \<^verbatim>\<open>try\<close>.\<close>

fun sweep ::
  "dir_env \<Rightarrow> string list \<Rightarrow> string list \<times> nat \<times> clean_log list
     \<Rightarrow> string list \<times> nat \<times> clean_log list" where
  "sweep env [] st = st"
| "sweep env (file # rest) (files, removedCount, log) =
     (case unlinkSync env file files of
        Inr files' \<Rightarrow> sweep env rest (files', removedCount + 1, log @ [Removed file])
      | Inl e \<Rightarrow> sweep env rest (files, removedCount, log @ [RemoveError file]))"

definition cleanOutputDir ::
  "dir_env \<Rightarrow> string list option \<Rightarrow> string list option \<times> clean_log list" where
  "cleanOutputDir env dir =
     (case dir of
        None \<Rightarrow> if mkdir_ok env then (Some [], [DirCreated]) else (None, [CleanupError])
      | Some files \<Rightarrow>
          if \<not> readdir_ok env then (Some files, [CleanupError])
          else
            (let pdfFiles = filter (\<lambda>file. endsWith file ''.pdf'') files
             in if pdfFiles = [] then (Some files, [AlreadyClean])
                else (case sweep env pdfFiles (files, 0, []) of
                        (files', removedCount, log) \<Rightarrow>
                          (Some files', log @ [CleanupDone removedCount]))))"

section \<open>The composed HTML\<close>

record format_config =
  margin :: string
  fontSize :: string
  description :: string

text \<open>The table \<^verbatim>\<open>formatConfigs\<close>.\<close>

fun formatConfigs :: "paper_format \<Rightarrow> format_config" where
  "formatConfigs A2 =
     \<lparr>margin = ''25mm'', fontSize = ''14px'',
      description = ''A2 (420'' @ [CHR 0xD7] @ ''594 mm) - Extra grande''\<rparr>"
| "formatConfigs A3 =
     \<lparr>margin = ''20mm'', fontSize = ''13px'',
      description = ''A3 (297'' @ [CHR 0xD7] @ ''420 mm) - Grande''\<rparr>"
| "formatConfigs A4 =
     \<lparr>margin = ''20mm'', fontSize = ''12px'',
      description = ''A4 (210'' @ [CHR 0xD7] @ ''297 mm) - Padr'' @ [CHR 0xE3] @ ''o''\<rparr>"
| "formatConfigs A5 =
     \<lparr>margin = ''15mm'', fontSize = ''11px'',
      description = ''A5 (148'' @ [CHR 0xD7] @ ''210 mm) - Compacto''\<rparr>"

text \<open>
  The template literal of \<^verbatim>\<open>convertMarkdownToPdf\<close>, character by character: the
  text before the \<^verbatim>\<open>@page\<close> rule, the rule with its two directives, and the rest of
  the template in parts. \<open>nl\<close> is the line feed.
\<close>

definition nl :: string where
  "nl = [CHR 0x0A]"

definition html_head :: "paper_format \<Rightarrow> string" where
  "html_head f =
     nl @ ''    <html>'' @ nl @ ''      <head>'' @ nl @ ''        <meta charset='' @
     [CHR 0x22] @ ''UTF-8'' @ [CHR 0x22] @ ''>'' @ nl @ ''        <style>'' @ nl @
     ''          /* Configura'' @ [CHR 0xE7] @ [CHR 0xF5] @ ''es para formato '' @
     format_name f @ '' retrato */'' @ nl @ ''          ''"

definition size_directive :: "paper_format \<Rightarrow> string" where
  "size_directive f = ''size: '' @ format_name f @ '' portrait;''"

definition margin_directive :: "paper_format \<Rightarrow> string" where
  "margin_directive f = ''margin: '' @ margin (formatConfigs f) @ '';''"

definition page_rule :: "paper_format \<Rightarrow> string" where
  "page_rule f =
     ''@page {'' @ nl @ ''            '' @ size_directive f @ nl @
     ''            '' @ margin_directive f @ nl @ ''          }''"

definition template_part1 :: "paper_format \<Rightarrow> string" where
  "template_part1 f =
     nl @ ''          '' @ nl @ ''          body { '' @ nl @
     ''            font-family: '' @ [CHR 0x27] @ ''Segoe UI'' @ [CHR 0x27] @
     '', Tahoma, Geneva, Verdana, sans-serif; '' @ nl @
     ''            line-height: 1.6;'' @ nl @ ''            color: #333;'' @ nl @
     ''            font-size: '' @ fontSize (formatConfigs f) @ '';'' @ nl @
     ''            padding: 0;'' @ nl @ ''            margin: 0;'' @ nl @
     ''            max-width: none;'' @ nl @ ''          }'' @ nl @ ''          '' @
     nl @ ''          /* T'' @ [CHR 0xED] @ ''tulos com quebras de p'' @ [CHR 0xE1] @
     ''gina controladas */'' @ nl @ ''          h1, h2, h3, h4, h5, h6 { '' @ nl @
     ''            page-break-after: avoid;'' @ nl @ ''            color: #2c3e50;'' @
     nl @ ''            margin-top: 1.5em;'' @ nl @
     ''            margin-bottom: 0.8em;'' @ nl @ ''            line-height: 1.3;'' @
     nl @ ''          }'' @ nl @ ''          '' @ nl @ ''          h1 { '' @ nl @
     ''            font-size: 2.8em; '' @ nl @
     ''            border-bottom: 3px solid #3498db; '' @ nl @
     ''            padding-bottom: 10px;'' @ nl @
     ''            margin-bottom: 1.2em;'' @ nl @
     ''            page-break-before: auto;'' @ nl @ ''          }'' @ nl @
     ''          '' @ nl @ ''          h2 { '' @ nl @
     ''            font-size: 2.2em; '' @ nl @ ''            color: #3498db; '' @ nl @
     ''            border-bottom: 2px solid #ecf0f1;'' @ nl @
     ''            padding-bottom: 8px;'' @ nl @
     ''            page-break-before: avoid;'' @ nl @ ''          }'' @ nl @
     ''          '' @ nl"

definition template_part2 :: "paper_format \<Rightarrow> string" where
  "template_part2 f =
     ''          h3 { '' @ nl @ ''            font-size: 1.8em; '' @ nl @
     ''            color: #34495e;'' @ nl @ ''            page-break-before: avoid;'' @
     nl @ ''          }'' @ nl @ ''          '' @ nl @ ''          h4 { '' @ nl @
     ''            font-size: 1.4em; '' @ nl @ ''            color: #7f8c8d;'' @ nl @
     ''          }'' @ nl @ ''          '' @ nl @ ''          /* Par'' @ [CHR 0xE1] @
     ''grafos */'' @ nl @ ''          p {'' @ nl @ ''            margin: 1em 0;'' @
     nl @ ''            text-align: justify;'' @ nl @ ''          }'' @ nl @
     ''          '' @ nl @ ''          /* C'' @ [CHR 0xF3] @
     ''digo com melhor formata'' @ [CHR 0xE7] @ [CHR 0xE3] @ ''o */'' @ nl @
     ''          pre { '' @ nl @ ''            background: #2c3e50; '' @ nl @
     ''            color: #ecf0f1;'' @ nl @ ''            padding: 20px; '' @ nl @
     ''            overflow-x: auto; '' @ nl @ ''            border-radius: 5px;'' @
     nl @ ''            margin: 1.5em 0;'' @ nl @ ''            font-family: '' @
     [CHR 0x27] @ ''Courier New'' @ [CHR 0x27] @ '', Monaco, monospace;'' @ nl @
     ''            font-size: '' @ (if f = A5 then ''10px'' else ''12px'') @ '';'' @
     nl @ ''            line-height: 1.4;'' @ nl @
     ''            page-break-inside: avoid;'' @ nl @
     ''            box-shadow: 0 2px 8px rgba(0,0,0,0.1);'' @ nl @ ''          }'' @
     nl @ ''          '' @ nl"

definition template_part3 :: "paper_format \<Rightarrow> string" where
  "template_part3 f =
     ''          code { '' @ nl @ ''            background: #ecf0f1; '' @ nl @
     ''            padding: 3px 6px; '' @ nl @ ''            border-radius: 3px;'' @
     nl @ ''            font-family: '' @ [CHR 0x27] @ ''Courier New'' @ [CHR 0x27] @
     '', Monaco, monospace;'' @ nl @ ''            color: #e74c3c;'' @ nl @
     ''            font-size: '' @ (if f = A5 then ''10px'' else ''11px'') @ '';'' @
     nl @ ''          }'' @ nl @ ''          '' @ nl @ ''          pre code {'' @ nl @
     ''            background: none;'' @ nl @ ''            color: #ecf0f1;'' @ nl @
     ''            padding: 0;'' @ nl @ ''            font-size: '' @
     (if f = A5 then ''10px'' else ''12px'') @ '';'' @ nl @ ''          }'' @ nl @
     ''          '' @ nl @ ''          /* Imagens responsivas */'' @ nl @
     ''          img { '' @ nl @ ''            max-width: 100%;'' @ nl @
     ''            height: auto;'' @ nl @ ''            display: block;'' @ nl @
     ''            margin: 1.5em auto;'' @ nl @
     ''            box-shadow: 0 4px 12px rgba(0,0,0,0.15);'' @ nl @
     ''            border-radius: 8px;'' @ nl @
     ''            page-break-inside: avoid;'' @ nl @ ''          }'' @ nl @
     ''          '' @ nl @ ''          /* Cita'' @ [CHR 0xE7] @ [CHR 0xF5] @
     ''es */'' @ nl @ ''          blockquote {'' @ nl @
     ''            border-left: 4px solid #3498db;'' @ nl @
     ''            margin: 1.5em 0;'' @ nl @ ''            font-style: italic;'' @ nl @
     ''            background: #f8f9fa;'' @ nl @ ''            padding: 20px;'' @ nl @
     ''            border-radius: 0 8px 8px 0;'' @ nl @ ''            font-size: '' @
     fontSize (formatConfigs f) @ '';'' @ nl @
     ''            page-break-inside: avoid;'' @ nl @
     ''            box-shadow: 0 2px 6px rgba(0,0,0,0.1);'' @ nl @ ''          }'' @
     nl @ ''          '' @ nl"

definition template_part4 :: "paper_format \<Rightarrow> string" where
  "template_part4 f =
     ''          /* Tabelas */'' @ nl @ ''          table {'' @ nl @
     ''            border-collapse: collapse;'' @ nl @ ''            width: 100%;'' @
     nl @ ''            margin: 1.5em 0;'' @ nl @ ''            font-size: '' @
     (if f = A5 then ''10px'' else ''11px'') @ '';'' @ nl @
     ''            page-break-inside: avoid;'' @ nl @
     ''            box-shadow: 0 2px 8px rgba(0,0,0,0.1);'' @ nl @ ''          }'' @
     nl @ ''          '' @ nl @ ''          table th, table td {'' @ nl @
     ''            border: 1px solid #ddd;'' @ nl @ ''            padding: '' @
     (if f = A5 then ''8px 10px'' else ''12px 15px'') @ '';'' @ nl @
     ''            text-align: left;'' @ nl @ ''            vertical-align: top;'' @
     nl @ ''          }'' @ nl @ ''          '' @ nl @ ''          table th {'' @ nl @
     ''            background: linear-gradient(135deg, #3498db, #2980b9);'' @ nl @
     ''            color: white;'' @ nl @ ''            font-weight: bold;'' @ nl @
     ''            font-size: '' @ (if f = A5 then ''11px'' else ''12px'') @ '';'' @
     nl @ ''          }'' @ nl @ ''          '' @ nl @
     ''          table tr:nth-child(even) {'' @ nl @
     ''            background-color: #f8f9fa;'' @ nl @ ''          }'' @ nl @
     ''          '' @ nl @ ''          table tr:hover {'' @ nl @
     ''            background-color: #e8f4f8;'' @ nl @ ''          }'' @ nl @
     ''          '' @ nl"

definition template_part5 :: "paper_format \<Rightarrow> string" where
  "template_part5 f =
     ''          /* Listas */'' @ nl @ ''          ul, ol { '' @ nl @
     ''            margin: 1em 0; '' @ nl @ ''            padding-left: 2em;'' @ nl @
     ''          }'' @ nl @ ''          '' @ nl @ ''          li { '' @ nl @
     ''            margin: 0.5em 0;'' @ nl @ ''            font-size: '' @
     fontSize (formatConfigs f) @ '';'' @ nl @ ''          }'' @ nl @ ''          '' @
     nl @ ''          /* Links */'' @ nl @ ''          a { '' @ nl @
     ''            color: #3498db; '' @ nl @ ''            text-decoration: none;'' @
     nl @ ''            font-weight: 500;'' @ nl @ ''          }'' @ nl @
     ''          '' @ nl @ ''          a:hover { '' @ nl @
     ''            text-decoration: underline; '' @ nl @
     ''            color: #2980b9;'' @ nl @ ''          }'' @ nl @ ''          '' @
     nl @ ''          /* Quebras de p'' @ [CHR 0xE1] @ ''gina controladas */'' @ nl @
     ''          h1 {'' @ nl @ ''            page-break-before: always;'' @ nl @
     ''          }'' @ nl @ ''          '' @ nl @ ''          h1:first-child {'' @ nl @
     ''            page-break-before: avoid;'' @ nl @ ''          }'' @ nl @
     ''          '' @ nl"

definition template_part6 :: "paper_format \<Rightarrow> string" where
  "template_part6 f =
     ''          h2, h3, h4, h5, h6 {'' @ nl @
     ''            page-break-after: avoid;'' @ nl @ ''          }'' @ nl @
     ''          '' @ nl @ ''          table, pre, blockquote {'' @ nl @
     ''            page-break-inside: avoid;'' @ nl @ ''          }'' @ nl @
     ''          '' @ nl @ ''          /* Estilo para elementos '' @ [CHR 0xF3] @
     ''rf'' @ [CHR 0xE3] @ ''os e vi'' @ [CHR 0xFA] @ ''vas */'' @ nl @
     ''          p {'' @ nl @ ''            orphans: 3;'' @ nl @
     ''            widows: 3;'' @ nl @ ''          }'' @ nl @ ''          '' @ nl @
     ''          /* Separadores */'' @ nl @ ''          hr {'' @ nl @
     ''            border: none;'' @ nl @ ''            height: 2px;'' @ nl @
     ''            background: linear-gradient(to right, #3498db, #2980b9);'' @ nl @
     ''            margin: 2em 0;'' @ nl @ ''            page-break-after: avoid;'' @
     nl @ ''          }'' @ nl @ ''        </style>'' @ nl @ ''      </head>'' @ nl @
     ''      <body>'' @ nl @ ''        ''"

definition html_tail :: "paper_format \<Rightarrow> string \<Rightarrow> string" where
  "html_tail f htmlContent =
     template_part1 f @ template_part2 f @ template_part3 f @ template_part4 f @ template_part5 f @ template_part6 f @
     htmlContent @ nl @ ''      </body>'' @ nl @ ''    </html>'' @ nl @ ''  ''"

definition compose_html :: "paper_format \<Rightarrow> string \<Rightarrow> string" where
  "compose_html f htmlContent = html_head f @ page_rule f @ html_tail f htmlContent"

section \<open>Rendering with the headless browser\<close>

text \<open>
  \<^verbatim>\<open>path.join(a, b)\<close> for an absolute \<^verbatim>\<open>a\<close>: the two are joined by a slash (an
  empty \<^verbatim>\<open>b\<close> is skipped) and normalized; a trailing slash is kept.
\<close>

definition path_join :: "string \<Rightarrow> string \<Rightarrow> string" where
  "path_join a b =
     (let joined = (if b = [] then a else a @ ''/'' @ b);
          segs = foldl norm_step [] (split_on CHR ''/'' joined)
      in if segs = [] then ''/''
         else ''/'' @ join_slash segs @ (if last joined = CHR ''/'' then ''/'' else []))"

definition INPUT_DIR :: "string \<Rightarrow> string" where
  "INPUT_DIR dirname = path_resolve dirname ''../markdown''"

definition OUTPUT_DIR :: "string \<Rightarrow> string" where
  "OUTPUT_DIR dirname = path_resolve dirname ''../output''"

text \<open>The options object of \<^verbatim>\<open>page.pdf\<close>.\<close>

record pdf_options =
  pdf_path :: string
  pdf_format :: paper_format
  landscape :: bool
  printBackground :: bool
  margin_top :: string
  margin_bottom :: string
  margin_left :: string
  margin_right :: string
  preferCSSPageSize :: bool
  displayHeaderFooter :: bool

definition pdf_options_of :: "paper_format \<Rightarrow> string \<Rightarrow> pdf_options" where
  "pdf_options_of format outputPath =
     \<lparr>pdf_path = outputPath, pdf_format = format, landscape = False, printBackground = True,
      margin_top = margin (formatConfigs format), margin_bottom = margin (formatConfigs format),
      margin_left = margin (formatConfigs format), margin_right = margin (formatConfigs format),
      preferCSSPageSize = True, displayHeaderFooter = False\<rparr>"

text \<open>
  The browser engine is outside the program: each of its calls succeeds or throws. The
  world holds what the calls change: the browsers launched and not yet closed, and the
  PDF files printed (with the HTML they were printed from).
\<close>

record puppeteer_env =
  launch_ok :: bool
  newPage_ok :: bool
  setContent_ok :: "string \<Rightarrow> bool"
  pdf_ok :: "pdf_options \<Rightarrow> bool"
  close_ok :: bool

record world =
  exists_file :: "string \<Rightarrow> bool"
  read_file :: filesystem
  open_browsers :: nat
  printed :: "(pdf_options \<times> string) list"

text \<open>
  Lines 420 to 443 of \<^verbatim>\<open>convertMarkdownToPdf\<close>: launch, new page, set content,
  print, close, one after the other with no \<^verbatim>\<open>try\<close> around them.
\<close>

definition render_pdf ::
  "puppeteer_env \<Rightarrow> string \<Rightarrow> pdf_options \<Rightarrow> world \<Rightarrow> (js_error + unit) \<times> world" where
  "render_pdf pp html opts w =
     (if \<not> launch_ok pp then (Inl LaunchError, w)
      else
        (let w1 = w\<lparr>open_browsers := open_browsers w + 1\<rparr>
         in if \<not> newPage_ok pp then (Inl PageError, w1)
            else if \<not> setContent_ok pp html then (Inl ContentError, w1)
            else if \<not> pdf_ok pp opts then (Inl PdfError, w1)
            else
              (let w2 = w1\<lparr>printed := (opts, html) # printed w1\<rparr>
               in if \<not> close_ok pp then (Inl CloseError, w2)
                  else (Inr (), w2\<lparr>open_browsers := open_browsers w2 - 1\<rparr>))))"

text \<open>
  \<^verbatim>\<open>convertMarkdownToPdf\<close>. \<^verbatim>\<open>marked.parse\<close> is the parameter \<open>marked\<close>, and
  \<^verbatim>\<open>__dirname\<close> the parameter \<open>dirname\<close>. A missing input file ends the function
  early (after a line on the error console).
\<close>

definition convertMarkdownToPdf ::
  "puppeteer_env \<Rightarrow> (string \<Rightarrow> string) \<Rightarrow> string \<Rightarrow> world \<Rightarrow> string \<Rightarrow> paper_format
     \<Rightarrow> (js_error + unit) \<times> world" where
  "convertMarkdownToPdf pp marked dirname w fileName format =
     (let inputPath = path_join (INPUT_DIR dirname) fileName;
          outputPath = path_join (OUTPUT_DIR dirname) (outputFileName fileName format)
      in if \<not> exists_file w inputPath then (Inr (), w)
         else
           (case read_file w inputPath of
              Inl e \<Rightarrow> (Inl e, w)
            | Inr markdown \<Rightarrow>
                (case inline_images (read_file w) (INPUT_DIR dirname) markdown of
                   Inl e \<Rightarrow> (Inl e, w)
                 | Inr inlined \<Rightarrow>
                     render_pdf pp (compose_html format (marked inlined))
                       (pdf_options_of format outputPath) w)))"

text \<open>
  A world with one Markdown file and no image, and a browser engine whose content load
  succeeds or fails.
\<close>

definition demo_world :: world where
  "demo_world =
     \<lparr>exists_file = (\<lambda>p. p = ''/app/markdown/a.md''),
      read_file = fs_one ''/app/markdown/a.md'' ''hi'',
      open_browsers = 0, printed = []\<rparr>"

text \<open>
  An environment of the output directory in which \<^verbatim>\<open>mkdirSync\<close> and
  \<^verbatim>\<open>readdirSync\<close> both succeed or both fail, and \<^verbatim>\<open>b.pdf\<close> cannot be removed.
\<close>

definition demo_dir_env :: "bool \<Rightarrow> dir_env" where
  "demo_dir_env ok =
     \<lparr>mkdir_ok = ok, readdir_ok = ok, unlink_ok = (\<lambda>file. file \<noteq> ''b.pdf'')\<rparr>"

definition demo_browser :: "bool \<Rightarrow> puppeteer_env" where
  "demo_browser loads =
     \<lparr>launch_ok = True, newPage_ok = True, setContent_ok = (\<lambda>html. loads),
      pdf_ok = (\<lambda>opts. True), close_ok = True\<rparr>"

section \<open>Properties of the matcher and of the paths\<close>

lemma split_on_nonempty: "split_on d s \<noteq> []"
  by (induction s) (auto split: list.splits)

lemma match_ext_shape:
  "match_ext es s = Some e \<Longrightarrow> e \<in> set es \<and> (\<exists>rest. s = ''.'' @ e @ '')'' @ rest)"
  by (induction es) (auto simp: prefix_def split: if_splits)

lemma match_path_shape:
  "match_path acc s = Some (stem, e) \<Longrightarrow>
     \<exists>t rest. stem = acc @ t \<and> s = t @ ''.'' @ e @ '')'' @ rest \<and> e \<in> set exts"
proof (induction acc s rule: match_path.induct)
  case (1 acc)
  then show ?case by simp
next
  case (2 acc c cs)
  show ?case
  proof (cases "match_ext exts (c # cs)")
    case None
    with 2 show ?thesis
      by (fastforce split: if_splits)
  next
    case (Some e')
    with 2 show ?thesis
      using match_ext_shape [OF Some] by auto
  qed
qed

lemma match_alt_shape:
  "match_alt acc s = Some (alt, stem, e) \<Longrightarrow>
     \<exists>a rest. alt = acc @ a \<and> s = a @ ''](./'' @ stem @ ''.'' @ e @ '')'' @ rest \<and> e \<in> set exts"
proof (induction acc s rule: match_alt.induct)
  case (1 acc)
  then show ?case by simp
next
  case (2 acc c cs)
  show ?case
  proof (cases "match_after_alt (c # cs)")
    case None
    with 2 show ?thesis
      by (fastforce split: if_splits)
  next
    case (Some r)
    obtain stem' e' where r: "r = (stem', e')" by (cases r)
    from Some r 2(2) have eq: "alt = acc" "stem' = stem" "e' = e" by auto
    from Some r have "prefix ''](./'' (c # cs)" "match_path [] (drop 4 (c # cs)) = Some (stem, e)"
      unfolding match_after_alt_def eq by (auto split: if_splits)
    then show ?thesis using match_path_shape [of "[]" "drop 4 (c # cs)" stem e] eq
      by (auto simp: prefix_def)
  qed
qed

lemma regex_exec_here_shape:
  "regex_exec_here s = Some (alt, stem, e) \<Longrightarrow>
     (\<exists>rest. s = match_text alt (capture_path stem e) @ rest) \<and> e \<in> set exts"
  unfolding regex_exec_here_def match_text_def capture_path_def
  using match_alt_shape [of "[]" "drop 2 s" alt stem e]
  by (auto simp: prefix_def split: if_splits)

lemma scan_source: "concat (map segment_source (scan s)) = s"
proof (induction s rule: scan.induct)
  case 1
  then show ?case by simp
next
  case (2 c cs)
  show ?case
  proof (cases "regex_exec_here (c # cs)")
    case None
    with 2 show ?thesis by simp
  next
    case (Some r)
    obtain alt stem e where r: "r = (alt, stem, e)" by (cases r)
    from regex_exec_here_shape [OF Some [unfolded r]]
    obtain rest where rest: "c # cs = match_text alt (capture_path stem e) @ rest" by blast
    have d: "drop (length (match_text alt (capture_path stem e))) (c # cs) = rest"
      by (subst rest) simp
    have sc: "scan (c # cs) = Ref alt (capture_path stem e) # scan rest"
      using Some r d by simp
    have "concat (map segment_source (scan rest)) = rest"
      using 2(2) [OF Some [unfolded r] refl refl] d by simp
    then show ?thesis
      unfolding sc using rest by simp
  qed
qed

lemma imageToBase64_cases:
  "imageToBase64 fs p =
     (case fs p of
        Inl e \<Rightarrow> Inr None
      | Inr buf \<Rightarrow> Inr (Some (''data:'' @ mimeType (drop 1 (extname p)) @ '';base64,'' @ base64 buf)))"
  by (simp add: imageToBase64_def imageToBase64_try_def Let_def split: sum.splits)

lemma replacer_total: "\<exists>r. replacer fs dir m p = Inr r"
  by (simp add: replacer_def imageToBase64_cases Let_def split: sum.splits)

lemma render_segment_total: "\<exists>r. render_segment fs dir g = Inr r"
  by (cases g) (simp_all add: replacer_total)

lemma assemble_pieces:
  "\<exists>rs. list_all2 (\<lambda>g r. render_segment fs dir g = Inr r) gs rs
        \<and> assemble fs dir gs = Inr (concat rs)"
proof (induction gs)
  case Nil
  then show ?case by simp
next
  case (Cons g gs)
  then obtain rs where rs: "list_all2 (\<lambda>g r. render_segment fs dir g = Inr r) gs rs"
    "assemble fs dir gs = Inr (concat rs)" by blast
  obtain r where r: "render_segment fs dir g = Inr r"
    using render_segment_total by blast
  have "list_all2 (\<lambda>g r. render_segment fs dir g = Inr r) (g # gs) (r # rs)"
    using r rs by simp
  moreover have "assemble fs dir (g # gs) = Inr (concat (r # rs))"
    using r rs by simp
  ultimately show ?case by blast
qed

lemma assemble_append:
  "assemble fs dir gs = Inr a \<Longrightarrow> assemble fs dir hs = Inr b \<Longrightarrow>
   assemble fs dir (gs @ hs) = Inr (a @ b)"
  by (induction gs arbitrary: a) (auto split: sum.splits)

lemma assemble_plain:
  "\<forall>g \<in> set gs. \<exists>c. g = Plain c \<Longrightarrow>
   assemble fs dir gs = Inr (concat (map segment_source gs))"
  by (induction gs) auto

lemma b64_char_in: "b64_char n \<in> set b64_alphabet"
  unfolding b64_char_def by (rule nth_mem) (simp add: b64_alphabet_def)

lemma base64_chars: "set (base64 bs) \<subseteq> set b64_alphabet \<union> {CHR ''=''}"
  by (induction bs rule: base64.induct) (auto simp: Let_def b64_char_in)

lemma b64_alphabet_plain:
  "CHR ''$'' \<notin> set b64_alphabet" "CHR ''.'' \<notin> set b64_alphabet"
  by (simp_all add: b64_alphabet_def)

lemma base64_no_dollar: "CHR ''$'' \<notin> set (base64 bs)"
  using base64_chars [of bs] b64_alphabet_plain by auto

lemma base64_no_dot: "CHR ''.'' \<notin> set (base64 bs)"
  using base64_chars [of bs] b64_alphabet_plain by auto

lemma getSubstitution_plain:
  "CHR ''$'' \<notin> set r \<Longrightarrow> getSubstitution m pre post r = r"
  by (induction m pre post r rule: getSubstitution.induct) auto

lemma string_replace_from_first:
  "CHR ''$'' \<notin> set r \<Longrightarrow>
   \<forall>k<length pre. \<not> prefix p (drop k (pre @ p @ post)) \<Longrightarrow>
   string_replace_from b (pre @ p @ post) p r = pre @ r @ post"
proof (induction pre arbitrary: b)
  case Nil
  show ?case
  proof (cases "p @ post")
    case Nil
    then show ?thesis using Nil.prems(1) by (simp add: getSubstitution_plain)
  next
    case (Cons a list)
    have pf: "prefix p (a # list)" unfolding Cons [symmetric] by simp
    have dr: "drop (length p) (a # list) = post" unfolding Cons [symmetric] by simp
    show ?thesis
      using Nil.prems(1) pf dr Cons by (simp add: getSubstitution_plain)
  qed
next
  case (Cons x pre)
  from Cons.prems(2) have "\<not> prefix p (x # pre @ p @ post)"
    by (metis append_Cons drop0 length_greater_0_conv list.discI)
  moreover have "\<forall>k<length pre. \<not> prefix p (drop k (pre @ p @ post))"
    using Cons.prems(2) by (metis Suc_less_eq append_Cons drop_Suc_Cons length_Cons)
  ultimately show ?case
    using Cons.IH [OF Cons.prems(1)] by simp
qed

lemma string_replace_from_absent:
  "\<not> sublist p s \<Longrightarrow> string_replace_from b s p r = s"
proof (induction s arbitrary: b)
  case Nil
  then show ?case by auto
next
  case (Cons c s)
  then show ?case
    by (auto simp: sublist_Cons_right)
qed

lemma split_on_snoc:
  "d \<notin> set b \<Longrightarrow> split_on d (xs @ d # b) = split_on d xs @ [b]"
proof (induction xs)
  case Nil
  have "split_on d b = [b]" using Nil by (induction b) auto
  then show ?case by simp
next
  case (Cons c xs)
  then show ?case
    using split_on_nonempty [of d xs] by (cases "split_on d xs") auto
qed

lemma join_slash_snoc:
  "st \<noteq> [] \<Longrightarrow> join_slash (st @ [b]) = join_slash st @ CHR ''/'' # b"
  by (induction st rule: join_slash.induct) auto

lemma foldl_norm_step_snoc:
  "b \<noteq> [] \<Longrightarrow> b \<noteq> ''.'' \<Longrightarrow> b \<noteq> ''..'' \<Longrightarrow>
   foldl norm_step st (segs @ [b]) = foldl norm_step st segs @ [b]"
  by (simp add: norm_step_def)

lemma normalize_abs_tail:
  assumes "CHR ''/'' \<notin> set b" "b \<noteq> []" "b \<noteq> ''.''" "b \<noteq> ''..''"
  shows "\<exists>Y. normalize_abs (X @ CHR ''/'' # b) = Y @ CHR ''/'' # b"
proof -
  let ?st = "foldl norm_step [] (split_on CHR ''/'' X)"
  have n: "normalize_abs (X @ CHR ''/'' # b) = ''/'' @ join_slash (?st @ [b])"
    unfolding normalize_abs_def
    by (simp only: split_on_snoc [OF assms(1)] foldl_norm_step_snoc [OF assms(2-4)])
  show ?thesis
  proof (cases "?st = []")
    case True
    then have "normalize_abs (X @ CHR ''/'' # b) = [] @ CHR ''/'' # b"
      using n by simp
    then show ?thesis by blast
  next
    case False
    then have "normalize_abs (X @ CHR ''/'' # b) = (''/'' @ join_slash ?st) @ CHR ''/'' # b"
      using n by (simp add: join_slash_snoc)
    then show ?thesis by blast
  qed
qed

lemma last_component_tail:
  assumes "CHR ''/'' \<notin> set b" "b \<noteq> []"
  shows "last_component (X @ CHR ''/'' # b) = b"
proof -
  let ?fs = "filter (\<lambda>s. s \<noteq> []) (split_on CHR ''/'' X)"
  have "filter (\<lambda>s. s \<noteq> []) (split_on CHR ''/'' (X @ CHR ''/'' # b)) = ?fs @ [b]"
    using assms(2) by (simp add: split_on_snoc [OF assms(1)])
  moreover have "(case ?fs @ [b] of [] \<Rightarrow> [] | x # xs \<Rightarrow> last (x # xs)) = last (?fs @ [b])"
    by (cases "?fs @ [b]") simp_all
  ultimately show ?thesis
    unfolding last_component_def by simp
qed

lemma last_dot_none: "CHR ''.'' \<notin> set e \<Longrightarrow> last_dot e = None"
  by (induction e) auto

lemma last_dot_tail:
  "CHR ''.'' \<notin> set e \<Longrightarrow> last_dot (b0 @ CHR ''.'' # e) = Some (length b0)"
  by (induction b0) (auto simp: last_dot_none)

lemma extname_tail:
  assumes "CHR ''/'' \<notin> set b0" "CHR ''/'' \<notin> set e" "CHR ''.'' \<notin> set e" "e \<noteq> []"
  shows "extname (X @ CHR ''/'' # b0 @ CHR ''.'' # e) = (if b0 = [] then [] else CHR ''.'' # e)"
proof -
  have "last_component (X @ CHR ''/'' # b0 @ CHR ''.'' # e) = b0 @ CHR ''.'' # e"
    using assms by (intro last_component_tail) auto
  moreover have "b0 @ CHR ''.'' # e \<noteq> ''..''"
    using assms(3,4) by (auto simp: append_eq_Cons_conv)
  ultimately show ?thesis
    unfolding extname_def by (simp add: last_dot_tail [OF assms(3)])
qed

lemma stem_decomp:
  "\<exists>s1 b0. stem = s1 @ b0 \<and> CHR ''/'' \<notin> set b0 \<and> (s1 = [] \<or> last s1 = CHR ''/'')
      \<and> (b0 = [] \<longleftrightarrow> stem = [] \<or> last stem = CHR ''/'')"
proof (induction stem rule: rev_induct)
  case Nil
  then show ?case by simp
next
  case (snoc x xs)
  show ?case
  proof (cases "x = CHR ''/''")
    case True
    then show ?thesis
      by (intro exI [of _ "xs @ [x]"] exI [of _ "[]"]) simp
  next
    case False
    from snoc obtain s1 b0 where "xs = s1 @ b0" "CHR ''/'' \<notin> set b0" "s1 = [] \<or> last s1 = CHR ''/''"
      by blast
    with False show ?thesis
      by (intro exI [of _ s1] exI [of _ "b0 @ [x]"]) simp
  qed
qed

lemma exts_plain:
  "e \<in> set exts \<Longrightarrow> e \<noteq> [] \<and> CHR ''/'' \<notin> set e \<and> CHR ''.'' \<notin> set e \<and> CHR ''$'' \<notin> set e
     \<and> last e \<noteq> CHR '']'' \<and> last e \<noteq> CHR ''('' \<and> 3 \<le> length e"
  by (auto simp: exts_def)

lemma path_resolve_tail:
  assumes "e \<in> set exts" "stem = s1 @ b0" "CHR ''/'' \<notin> set b0" "s1 = [] \<or> last s1 = CHR ''/''"
  shows "\<exists>Y. path_resolve dir (capture_path stem e) = Y @ CHR ''/'' # b0 @ CHR ''.'' # e"
proof -
  let ?b = "b0 @ CHR ''.'' # e"
  from exts_plain [OF assms(1)] have e: "e \<noteq> []" "CHR ''/'' \<notin> set e" "3 \<le> length e" by auto
  have b: "CHR ''/'' \<notin> set ?b" "?b \<noteq> []" "?b \<noteq> ''.''" "?b \<noteq> ''..''"
    using assms(3) e by (auto simp: append_eq_Cons_conv)
  have "\<exists>X. dir @ ''/'' @ capture_path stem e = X @ CHR ''/'' # ?b"
  proof (cases "s1 = []")
    case True
    then have "dir @ ''/'' @ capture_path stem e = (dir @ ''/.'') @ CHR ''/'' # ?b"
      using assms(2) by (simp add: capture_path_def)
    then show ?thesis by blast
  next
    case False
    with assms(4) have "s1 = butlast s1 @ ''/''"
      by (metis append_butlast_last_id)
    then have "dir @ ''/'' @ capture_path stem e = (dir @ ''/./'' @ butlast s1) @ CHR ''/'' # ?b"
      using assms(2) by (simp add: capture_path_def)
    then show ?thesis by blast
  qed
  then obtain X where X: "dir @ ''/'' @ capture_path stem e = X @ CHR ''/'' # ?b" by blast
  have "path_resolve dir (capture_path stem e) = normalize_abs (dir @ ''/'' @ capture_path stem e)"
    by (simp add: path_resolve_def capture_path_def)
  then show ?thesis
    using normalize_abs_tail [OF b, of X] X by simp
qed

lemma extname_resolved:
  assumes "e \<in> set exts"
  shows "extname (path_resolve dir (capture_path stem e)) =
           (if stem = [] \<or> last stem = CHR ''/'' then [] else CHR ''.'' # e)"
proof -
  from stem_decomp [of stem] obtain s1 b0 where d: "stem = s1 @ b0" "CHR ''/'' \<notin> set b0"
    "s1 = [] \<or> last s1 = CHR ''/''" "b0 = [] \<longleftrightarrow> stem = [] \<or> last stem = CHR ''/''"
    by blast
  from path_resolve_tail [OF assms d(1-3)] obtain Y where
    Y: "path_resolve dir (capture_path stem e) = Y @ CHR ''/'' # b0 @ CHR ''.'' # e" by blast
  from exts_plain [OF assms] have "CHR ''/'' \<notin> set e" "CHR ''.'' \<notin> set e" "e \<noteq> []" by auto
  from extname_tail [OF d(2) this] show ?thesis
    unfolding Y using d(4) by simp
qed

lemma two_at_end:
  "xs @ [a, b] = ys @ zs \<Longrightarrow>
     zs = [] \<or> (zs = [b] \<and> xs @ [a] = ys) \<or> (\<exists>zs'. zs = zs' @ [a, b] \<and> xs = ys @ zs')"
proof (cases zs rule: rev_cases)
  case Nil
  then show ?thesis by simp
next
  case (snoc zs1 z)
  assume eq: "xs @ [a, b] = ys @ zs"
  show ?thesis
  proof (cases zs1 rule: rev_cases)
    case Nil
    with snoc eq have "(xs @ [a]) @ [b] = ys @ [z]" by simp
    then have "xs @ [a] = ys \<and> b = z" by (simp only: append1_eq_conv)
    with Nil snoc show ?thesis by simp
  next
    case (snoc zs2 y)
    with \<open>zs = zs1 @ [z]\<close> eq have "xs @ [a, b] = (ys @ zs2) @ [y, z]" by simp
    then have "xs = ys @ zs2 \<and> a = y \<and> b = z" by simp
    with snoc \<open>zs = zs1 @ [z]\<close> show ?thesis by simp
  qed
qed

lemma occurrence_split:
  assumes "k < length A" "prefix p (drop k (A @ t))"
  shows "\<exists>u w v. A = u @ w \<and> w \<noteq> [] \<and> w @ t = p @ v"
proof -
  from assms(2) obtain v where "drop k (A @ t) = p @ v" by (auto simp: prefix_def)
  with assms(1) have "drop k A @ t = p @ v" by simp
  moreover have "A = take k A @ drop k A" "drop k A \<noteq> []" using assms(1) by simp_all
  ultimately show ?thesis by blast
qed

lemma prefix_outside_head:
  assumes p: "p \<noteq> []" "hd p = CHR ''.''" "last p \<noteq> CHR '']''" "last p \<noteq> CHR ''(''"
    and alt: "\<not> sublist p alt" and br: "\<not> sublist '']('' p"
  shows "\<forall>k<length (''!['' @ alt @ '']('').
           \<not> prefix p (drop k ((''!['' @ alt @ '']('') @ t))"
proof (intro allI impI notI)
  fix k
  assume "k < length (''!['' @ alt @ '']('')"
    and "prefix p (drop k ((''!['' @ alt @ '']('') @ t))"
  from occurrence_split [OF this] obtain u w v where
    A: "''!['' @ alt @ '']('' = u @ w" and w: "w \<noteq> []" and v: "w @ t = p @ v"
    by blast
  from v consider us where "w = p @ us" | us where "w @ us = p"
    by (auto simp: append_eq_append_conv2)
  then show False
  proof cases
    case 1
    with A have eq: "(''!['' @ alt) @ [CHR '']'', CHR ''(''] = (u @ p) @ us" by simp
    from two_at_end [OF eq] consider "us = []" | "us = ''(''" "(''!['' @ alt) @ '']'' = u @ p"
      | us' where "''!['' @ alt = (u @ p) @ us'" by blast
    then show False
    proof cases
      case 1
      with eq have "(''!['' @ alt @ '']'') @ ''('' = u @ p" by simp
      with p(1) have "last p = CHR ''(''"
        by (metis last_appendR last_snoc)
      with p(4) show False by simp
    next
      case 2
      with p(1) have "last p = CHR '']''"
        by (metis last_appendR last_snoc)
      with p(3) show False by simp
    next
      case 3
      then have e3: "CHR ''!'' # CHR ''['' # alt = u @ p @ us'" by simp
      show False
      proof (cases u)
        case Nil
        with e3 p(1,2) show False by (cases p) auto
      next
        case (Cons x u1)
        show False
        proof (cases u1)
          case Nil
          with Cons e3 p(1,2) show False by (cases p) auto
        next
          case (Cons y u2)
          with \<open>u = x # u1\<close> e3 have "alt = u2 @ p @ us'" by simp
          with alt show False by (auto simp: sublist_def)
        qed
      qed
    qed
  next
    case 2
    from A have eq: "(''!['' @ alt) @ [CHR '']'', CHR ''(''] = u @ w" by simp
    from two_at_end [OF eq] w consider "w = ''(''" | w' where "w = w' @ ''](''" by blast
    then show False
    proof cases
      case 1
      with 2 p(2) show False by auto
    next
      case 2
      with \<open>w @ us = p\<close> have "p = w' @ '']('' @ us" by simp
      with br show False by (auto simp: sublist_def)
    qed
  qed
qed

lemma sublist_prefix_drop:
  "sublist p s \<longleftrightarrow> (\<exists>k\<le>length s. prefix p (drop k s))"
proof
  assume "sublist p s"
  then obtain ps ss where "s = ps @ p @ ss" by (auto simp: sublist_def)
  then have "prefix p (drop (length ps) s)" "length ps \<le> length s" by simp_all
  then show "\<exists>k\<le>length s. prefix p (drop k s)" by blast
next
  assume "\<exists>k\<le>length s. prefix p (drop k s)"
  then obtain k v where "drop k s = p @ v" by (auto simp: prefix_def)
  then have "s = take k s @ p @ v" by (metis append_take_drop_id)
  then show "sublist p s" unfolding sublist_def by blast
qed

lemma first_occurrence_ex:
  assumes "sublist p s"
  shows "\<exists>pre post. s = pre @ p @ post \<and> (\<forall>k<length pre. \<not> prefix p (drop k s))"
proof -
  from assms obtain k0 where k0: "prefix p (drop k0 s)" "k0 \<le> length s"
    unfolding sublist_prefix_drop by blast
  define k where "k = (LEAST k. prefix p (drop k s))"
  have kp: "prefix p (drop k s)" unfolding k_def using k0(1) by (rule LeastI)
  have kmin: "\<And>j. j < k \<Longrightarrow> \<not> prefix p (drop j s)"
    unfolding k_def by (rule not_less_Least)
  from kp obtain v where v: "drop k s = p @ v" by (auto simp: prefix_def)
  have kl: "k \<le> length s" unfolding k_def using k0 by (meson Least_le le_trans)
  have "s = take k s @ p @ v" using v by (metis append_take_drop_id)
  moreover have "length (take k s) = k" using kl by simp
  ultimately show ?thesis using kmin by metis
qed

lemma string_replace_first:
  assumes "s = pre @ p @ post" "\<forall>k<length pre. \<not> prefix p (drop k s)" "CHR ''$'' \<notin> set r"
  shows "string_replace s p r = pre @ r @ post"
  unfolding string_replace_def using string_replace_from_first [OF assms(3), of pre p post "[]"] assms(1,2)
  by simp

lemma capture_path_plain:
  assumes "e \<in> set exts"
  shows "capture_path stem e \<noteq> []" "hd (capture_path stem e) = CHR ''.''"
    "last (capture_path stem e) \<noteq> CHR '']''" "last (capture_path stem e) \<noteq> CHR ''(''"
  using exts_plain [OF assms] by (auto simp: capture_path_def)

lemma mimeType_plain:
  assumes "ext = [] \<or> ext \<in> set exts"
  shows "CHR ''$'' \<notin> set (mimeType ext)" "CHR ''.'' \<notin> set (mimeType ext)"
  using assms by (auto simp: mimeType_def exts_def)

lemma data_uri_plain:
  assumes "ext = [] \<or> ext \<in> set exts"
  shows "CHR ''$'' \<notin> set (data_uri ext bytes)" "CHR ''.'' \<notin> set (data_uri ext bytes)"
    "data_uri ext bytes \<noteq> []"
  using mimeType_plain [OF assms] base64_no_dollar [of bytes] base64_no_dot [of bytes]
  by (auto simp: data_uri_def)

lemma resolved_ext:
  assumes "e \<in> set exts"
  shows "drop 1 (extname (path_resolve dir (capture_path stem e))) =
           (if stem = [] \<or> last stem = CHR ''/'' then [] else e)"
  by (simp add: extname_resolved [OF assms])

lemma render_ref:
  assumes "e \<in> set exts" "fs (path_resolve dir (capture_path stem e)) = Inr bytes"
  shows "render_segment fs dir (Ref alt (capture_path stem e)) =
           Inr (string_replace (match_text alt (capture_path stem e)) (capture_path stem e)
                  (data_uri (if stem = [] \<or> last stem = CHR ''/'' then [] else e) bytes))"
proof -
  let ?ext = "if stem = [] \<or> last stem = CHR ''/'' then [] else e"
  have "?ext = [] \<or> ?ext \<in> set exts" using assms(1) by simp
  from data_uri_plain(3) [OF this] have ne: "data_uri ?ext bytes \<noteq> []" .
  have "imageToBase64 fs (path_resolve dir (capture_path stem e)) = Inr (Some (data_uri ?ext bytes))"
    unfolding imageToBase64_cases assms(2) resolved_ext [OF assms(1)] data_uri_def by simp
  then show ?thesis using ne by (simp add: replacer_def Let_def)
qed

lemma render_ref_unreadable:
  assumes "fs (path_resolve dir p) = Inl err"
  shows "render_segment fs dir (Ref alt p) = Inr (match_text alt p)"
  using assms by (simp add: replacer_def imageToBase64_cases Let_def)

lemma scan_refs:
  "Ref alt p \<in> set (scan s) \<Longrightarrow>
     \<exists>t stem e. suffix t s \<and> regex_exec_here t = Some (alt, stem, e) \<and> p = capture_path stem e"
proof (induction s rule: scan.induct)
  case 1
  then show ?case by simp
next
  case (2 c cs)
  note outer = 2
  show ?case
  proof (cases "regex_exec_here (c # cs)")
    case None
    with 2 obtain t stem e where "suffix t cs" "regex_exec_here t = Some (alt, stem, e)"
      "p = capture_path stem e" by auto
    moreover from this have "suffix t (c # cs)" by (simp add: suffix_Cons)
    ultimately show ?thesis by blast
  next
    case (Some r)
    obtain alt' stem' e' where r: "r = (alt', stem', e')" by (cases r)
    let ?rest = "drop (length (match_text alt' (capture_path stem' e'))) (c # cs)"
    from outer(3) Some r consider "alt = alt'" "p = capture_path stem' e'" | "Ref alt p \<in> set (scan ?rest)"
      by auto
    then show ?thesis
    proof cases
      case 1
      with Some r show ?thesis by (metis suffix_order.refl)
    next
      case 2
      from outer(2) [OF Some [unfolded r] refl refl this] obtain t stem e where
        "suffix t ?rest" "regex_exec_here t = Some (alt, stem, e)" "p = capture_path stem e" by blast
      moreover have "suffix ?rest (c # cs)" by (rule suffix_drop)
      ultimately have "suffix t (c # cs)" "regex_exec_here t = Some (alt, stem, e)"
        "p = capture_path stem e" by (auto intro: suffix_order.trans)
      then show ?thesis by blast
    qed
  qed
qed

lemma scan_no_match:
  "\<forall>t \<in> set (suffixes s). regex_exec_here t = None \<Longrightarrow> scan s = map Plain s"
  by (induction s) auto

lemma first_occurrence_unique:
  assumes "s = pre @ p @ post" "\<forall>k<length pre. \<not> prefix p (drop k s)"
    and "s = pre' @ p @ post'" "\<forall>k<length pre'. \<not> prefix p (drop k s)"
  shows "pre = pre' \<and> post = post'"
proof -
  have a: "prefix p (drop (length pre) s)" using assms(1) by simp
  have b: "prefix p (drop (length pre') s)" using assms(3) by simp
  have "length pre = length pre'"
    using a b assms(2,4) by (meson linorder_neqE_nat)
  with assms(1,3) show ?thesis by simp
qed

lemma drop_past: "length A \<le> k \<Longrightarrow> drop k (A @ t) = drop (k - length A) t"
  by simp

lemma prefix_within:
  "length p \<le> length xs \<Longrightarrow> prefix p (xs @ ys) \<longleftrightarrow> prefix p xs"
  using prefix_length_prefix [of p "xs @ ys" xs] by auto

lemma occurrence_in_alt_first:
  assumes p: "p \<noteq> []" "hd p = CHR ''.''"
    and alt: "alt = u @ p @ v" "\<forall>k<length u. \<not> prefix p (drop k alt)"
  shows "\<forall>k<length (''!['' @ u). \<not> prefix p (drop k ((''!['' @ u) @ p @ v @ '']('' @ p @ '')''))"
proof (intro allI impI)
  fix k
  assume k: "k < length (''!['' @ u)"
  consider "k = 0" | "k = 1" | j where "k = Suc (Suc j)" "j < length u"
    using k by (cases k) (auto simp: less_Suc_eq_0_disj)
  then show "\<not> prefix p (drop k ((''!['' @ u) @ p @ v @ '']('' @ p @ '')''))"
  proof cases
    case 1
    with p show ?thesis by (cases p) auto
  next
    case 2
    with p show ?thesis by (cases p) auto
  next
    case 3
    have "drop k ((''!['' @ u) @ p @ v @ '']('' @ p @ '')'') = drop j alt @ '']('' @ p @ '')''"
      using 3 alt(1) by simp
    moreover have "length p \<le> length (drop j alt)" using 3(2) alt(1) by simp
    ultimately show ?thesis
      using alt(2) 3(2) by (simp add: prefix_within)
  qed
qed

lemma imageToBase64_resolved:
  assumes "e \<in> set exts" "fs (path_resolve dir (capture_path stem e)) = Inr bytes"
  shows "imageToBase64 fs (path_resolve dir (capture_path stem e)) =
           Inr (Some (data_uri (if stem = [] \<or> last stem = CHR ''/'' then [] else e) bytes))"
  unfolding imageToBase64_cases assms(2) resolved_ext [OF assms(1)] data_uri_def by simp

section \<open>Evaluations at concrete inputs\<close>

text \<open>
  One readable file of three bytes under \<^verbatim>\<open>/in\<close>; the documents of the examples
  below refer to it, to a missing file, and to a path that holds a bracket.
\<close>

lemma render_ref_eval:
  assumes "path_resolve dir p = ap" "fs ap = Inr bytes" "drop 1 (extname ap) = ext"
    and "base64 bytes = b"
    and "string_replace (match_text alt p) p (''data:'' @ mimeType ext @ '';base64,'' @ b) = out"
  shows "render_segment fs dir (Ref alt p) = Inr out"
  using assms by (auto simp: replacer_def imageToBase64_cases Let_def mimeType_def)

lemma inline_single:
  assumes "scan md = [g]" "render_segment fs dir g = Inr r"
  shows "inline_images fs dir md = Inr r"
  using assms by (simp add: inline_images_def)

lemma base64_abc: "base64 ''abc'' = ''YWJj''"
  by (simp add: b64_char_def b64_alphabet_def)

lemma fs_one_hit: "fs_one path bytes path = Inr bytes"
  by (simp add: fs_one_def)

lemma fs_one_miss: "p \<noteq> path \<Longrightarrow> fs_one path bytes p = Inl FileError"
  by (simp add: fs_one_def)

lemma demo_alt_match:
  "regex_exec_here ''![./a.png](./a.png)'' = Some (''./a.png'', ''a'', ''png'')"
  by code_simp

lemma demo_alt_scan: "scan ''![./a.png](./a.png)'' = [Ref ''./a.png'' ''./a.png'']"
  by (simp add: demo_alt_match capture_path_def match_text_def)

lemma demo_resolve_a: "path_resolve ''/in'' ''./a.png'' = ''/in/a.png''"
  by code_simp

lemma demo_ext_a: "drop 1 (extname ''/in/a.png'') = ''png''"
  by code_simp

lemma demo_alt_replace:
  "string_replace (match_text ''./a.png'' ''./a.png'') ''./a.png''
     (''data:'' @ mimeType ''png'' @ '';base64,'' @ ''YWJj'') = ''![data:image/png;base64,YWJj](./a.png)''"
  by code_simp

lemma demo_alt_render:
  "render_segment (fs_one ''/in/a.png'' ''abc'') ''/in'' (Ref ''./a.png'' ''./a.png'')
     = Inr ''![data:image/png;base64,YWJj](./a.png)''"
  by (rule render_ref_eval [where fs = "fs_one ''/in/a.png'' ''abc''" and bytes = "''abc''",
        OF demo_resolve_a fs_one_hit demo_ext_a base64_abc demo_alt_replace])

lemma imageToBase64_eval:
  assumes "fs ap = Inr bytes" "drop 1 (extname ap) = ext" "base64 bytes = b"
  shows "imageToBase64 fs ap = Inr (Some (''data:'' @ mimeType ext @ '';base64,'' @ b))"
  using assms by (simp add: imageToBase64_cases)

lemma demo_jpg_match: "regex_exec_here ''![x](./a.jpg)'' = Some (''x'', ''a'', ''jpg'')"
  by code_simp

lemma demo_resolve_jpg: "path_resolve ''/in'' ''./a.jpg'' = ''/in/a.jpg''"
  by code_simp

lemma demo_plain_none: "\<forall>t\<in>set (suffixes ''![x](a.png)''). regex_exec_here t = None"
  by code_simp

lemma demo_two_match1:
  "regex_exec_here ''![x](./missing.png) ![y](./a.png)'' = Some (''x'', ''missing'', ''png'')"
  by code_simp

lemma demo_two_match2: "regex_exec_here '' ![y](./a.png)'' = None"
  by code_simp

lemma demo_two_match3: "regex_exec_here ''![y](./a.png)'' = Some (''y'', ''a'', ''png'')"
  by code_simp

lemma demo_two_scan:
  "scan ''![x](./missing.png) ![y](./a.png)''
     = [] @ Ref ''x'' ''./missing.png'' # [Plain CHR '' '', Ref ''y'' ''./a.png'']"
  by (simp add: demo_two_match1 demo_two_match2 demo_two_match3 capture_path_def match_text_def)

lemma demo_resolve_missing: "path_resolve ''/in'' ''./missing.png'' = ''/in/missing.png''"
  by code_simp

lemma demo_y_replace:
  "string_replace (match_text ''y'' ''./a.png'') ''./a.png''
     (''data:'' @ mimeType ''png'' @ '';base64,'' @ ''YWJj'') = ''![y](data:image/png;base64,YWJj)''"
  by code_simp

lemma demo_y_render:
  "render_segment (fs_one ''/in/a.png'' ''abc'') ''/in'' (Ref ''y'' ''./a.png'')
     = Inr ''![y](data:image/png;base64,YWJj)''"
  by (rule render_ref_eval [where fs = "fs_one ''/in/a.png'' ''abc''" and bytes = "''abc''",
        OF demo_resolve_a fs_one_hit demo_ext_a base64_abc demo_y_replace])

lemma demo_straddle_match:
  "regex_exec_here ''![./a.png](./a.png](./a.png)'' = Some (''./a.png'', ''a.png](./a'', ''png'')"
  by code_simp

lemma demo_straddle_scan:
  "scan ''![./a.png](./a.png](./a.png)'' = [Ref ''./a.png'' ''./a.png](./a.png'']"
  by (simp add: demo_straddle_match capture_path_def match_text_def)

lemma demo_resolve_straddle:
  "path_resolve ''/in'' ''./a.png](./a.png'' = ''/in/a.png](./a.png''"
  by code_simp

lemma demo_ext_straddle: "drop 1 (extname ''/in/a.png](./a.png'') = ''png''"
  by code_simp

lemma demo_straddle_replace:
  "string_replace (match_text ''./a.png'' ''./a.png](./a.png'') ''./a.png](./a.png''
     (''data:'' @ mimeType ''png'' @ '';base64,'' @ ''YWJj'') = ''![data:image/png;base64,YWJj](./a.png)''"
  by code_simp

lemma demo_straddle_render:
  "render_segment (fs_one ''/in/a.png](./a.png'' ''abc'') ''/in'' (Ref ''./a.png'' ''./a.png](./a.png'')
     = Inr ''![data:image/png;base64,YWJj](./a.png)''"
  by (rule render_ref_eval [where fs = "fs_one ''/in/a.png](./a.png'' ''abc''" and bytes = "''abc''",
        OF demo_resolve_straddle fs_one_hit demo_ext_straddle base64_abc demo_straddle_replace])

section \<open>The claims about the image inliner\<close>

text \<open>
  Claim C9, as the code has it. For a matched reference whose file is read, the data URI
  replaces the first occurrence of the path string in the whole matched text
  \<^verbatim>\<open>![alt](path)\<close>: the matched text is \<^verbatim>\<open>pre @ path @ post\<close> with no occurrence
  of the path starting inside \<^verbatim>\<open>pre\<close>, and the result is \<^verbatim>\<open>pre @ uri @ post\<close>.
  When the alt text does not contain the path and the path does not contain
  \<^verbatim>\<open>](\<close>, the result is exactly \<^verbatim>\<open>![alt](uri)\<close>. When the alt text contains
  the path, the substitution lands in the alt text and the parenthesized path stays.
\<close>

theorem replacement_at_first_occurrence:
  assumes "Ref alt p \<in> set (scan md)" and "fs (path_resolve dir p) = Inr bytes"
  shows "\<exists>uri pre post.
           imageToBase64 fs (path_resolve dir p) = Inr (Some uri)
         \<and> match_text alt p = pre @ p @ post
         \<and> (\<forall>k<length pre. \<not> prefix p (drop k (match_text alt p)))
         \<and> render_segment fs dir (Ref alt p) = Inr (pre @ uri @ post)
         \<and> (\<not> sublist p alt \<and> \<not> sublist '']('' p \<longrightarrow> pre = ''!['' @ alt @ '']('' \<and> post = '')'')
         \<and> (sublist p alt \<longrightarrow>
               (\<exists>u v. alt = u @ p @ v \<and> pre = ''!['' @ u \<and> post = v @ '']('' @ p @ '')''))"
proof -
  from scan_refs [OF assms(1)] obtain t stem e where
    t: "regex_exec_here t = Some (alt, stem, e)" and pe: "p = capture_path stem e" by blast
  from regex_exec_here_shape [OF t] have e: "e \<in> set exts" by simp
  let ?ext = "if stem = [] \<or> last stem = CHR ''/'' then [] else e"
  let ?uri = "data_uri ?ext bytes"
  have ext: "?ext = [] \<or> ?ext \<in> set exts" using e by simp
  note pl = capture_path_plain [OF e, of stem, folded pe]
  have mt: "match_text alt p = (''!['' @ alt @ '']('') @ p @ '')''"
    by (simp add: match_text_def)
  then have "sublist p (match_text alt p)" by (metis sublist_appendI)
  from first_occurrence_ex [OF this] obtain pre post where
    pp: "match_text alt p = pre @ p @ post"
      "\<forall>k<length pre. \<not> prefix p (drop k (match_text alt p))" by blast
  have 1: "imageToBase64 fs (path_resolve dir p) = Inr (Some ?uri)"
    using imageToBase64_resolved [OF e] assms(2) unfolding pe by simp
  have 2: "render_segment fs dir (Ref alt p) = Inr (pre @ ?uri @ post)"
    using render_ref [OF e, of fs dir stem bytes alt] assms(2)
      string_replace_first [OF pp data_uri_plain(1) [OF ext]]
    unfolding pe by simp
  have 3: "pre = ''!['' @ alt @ '']('' \<and> post = '')''"
    if "\<not> sublist p alt" "\<not> sublist '']('' p"
    using first_occurrence_unique [OF pp mt]
      prefix_outside_head [OF pl that, of "p @ '')''"] unfolding mt by simp
  have 4: "\<exists>u v. alt = u @ p @ v \<and> pre = ''!['' @ u \<and> post = v @ '']('' @ p @ '')''"
    if "sublist p alt"
  proof -
    from first_occurrence_ex [OF that] obtain u v where
      uv: "alt = u @ p @ v" "\<forall>k<length u. \<not> prefix p (drop k alt)" by blast
    have m2: "match_text alt p = (''!['' @ u) @ p @ (v @ '']('' @ p @ '')'')"
      using uv(1) by (simp add: match_text_def)
    from first_occurrence_unique [OF pp m2]
      occurrence_in_alt_first [OF pl(1,2) uv] m2
    have "pre = ''!['' @ u \<and> post = v @ '']('' @ p @ '')''" by simp
    with uv(1) show ?thesis by blast
  qed
  from pp 1 2 3 4 show ?thesis by blast
qed

text \<open>
  The references the code inlines as its comment says (the local path replaced by the
  data URI): those the regular expression matches, whose file is read, whose alt text
  does not contain the path string, whose path does not contain \<^verbatim>\<open>](\<close> and whose
  file name is more than a dot and the extension. For them the output is
  \<^verbatim>\<open>![alt](data:image/<type>;base64,<payload>)\<close>, the type being \<^verbatim>\<open>jpeg\<close> for the
  extension \<^verbatim>\<open>jpg\<close> and the extension otherwise, and the relative path occurs
  nowhere in that output.
\<close>

theorem inlined_reference_data_uri:
  assumes "regex_exec_here t = Some (alt, stem, e)"
    and "fs (path_resolve dir (capture_path stem e)) = Inr bytes"
    and "\<not> sublist (capture_path stem e) alt"
    and "\<not> sublist '']('' (capture_path stem e)"
    and "stem \<noteq> []" and "last stem \<noteq> CHR ''/''"
  shows "render_segment fs dir (Ref alt (capture_path stem e)) =
           Inr (''!['' @ alt @ '']('' @ ''data:image/'' @ (if e = ''jpg'' then ''jpeg'' else e)
                  @ '';base64,'' @ base64 bytes @ '')'')
       \<and> \<not> sublist (capture_path stem e)
             (''!['' @ alt @ '']('' @ ''data:image/'' @ (if e = ''jpg'' then ''jpeg'' else e)
                  @ '';base64,'' @ base64 bytes @ '')'')"
proof -
  let ?p = "capture_path stem e"
  let ?uri = "data_uri e bytes"
  from regex_exec_here_shape [OF assms(1)] have e: "e \<in> set exts" by simp
  have ext: "e = [] \<or> e \<in> set exts" using e by simp
  note pl = capture_path_plain [OF e, of stem]
  note outside = prefix_outside_head [OF pl assms(3,4)]
  have mt: "match_text alt ?p = (''!['' @ alt @ '']('') @ ?p @ '')''"
    by (simp add: match_text_def)
  have "render_segment fs dir (Ref alt ?p) = Inr (string_replace (match_text alt ?p) ?p ?uri)"
    using render_ref [where fs = fs and dir = dir, OF e assms(2)] assms(5,6) by simp
  also have "string_replace (match_text alt ?p) ?p ?uri = (''!['' @ alt @ '']('') @ ?uri @ '')''"
    using outside [of "?p @ '')''"] unfolding mt
    by (intro string_replace_first [OF refl _ data_uri_plain(1) [OF ext]]) simp
  finally have r: "render_segment fs dir (Ref alt ?p) = Inr ((''!['' @ alt @ '']('') @ ?uri @ '')'')" .
  have "\<not> sublist ?p ((''!['' @ alt @ '']('') @ ?uri @ '')'')"
  proof
    assume "sublist ?p ((''!['' @ alt @ '']('') @ ?uri @ '')'')"
    then obtain k where k: "prefix ?p (drop k ((''!['' @ alt @ '']('') @ ?uri @ '')''))"
      unfolding sublist_prefix_drop by blast
    with outside [of "?uri @ '')''"] have "length (''!['' @ alt @ '']('') \<le> k"
      by (meson not_le_imp_less)
    then have "drop k ((''!['' @ alt @ '']('') @ ?uri @ '')'')
                 = drop (k - length (''!['' @ alt @ '']('')) (?uri @ '')'')"
      by (rule drop_past)
    with k obtain v where "drop (k - length (''!['' @ alt @ '']('')) (?uri @ '')'') = ?p @ v"
      by (auto simp: prefix_def)
    then have "set ?p \<subseteq> set (?uri @ '')'')"
      by (metis set_drop_subset le_sup_iff set_append)
    moreover have "CHR ''.'' \<in> set ?p" by (simp add: capture_path_def)
    ultimately show False using data_uri_plain(2) [OF ext, of bytes] by auto
  qed
  with r show ?thesis by (simp add: data_uri_def mimeType_def)
qed

text \<open>
  Claim C5. The input is the concatenation of its segments (single characters and
  matched references), the output is the concatenation of what each segment becomes,
  and a character outside the matched references becomes itself. A text in which the
  regular expression matches nowhere is returned as it is.
\<close>

theorem inliner_preserves_text_outside_references:
  "(\<exists>rs. list_all2 (\<lambda>g r. case g of Plain c \<Rightarrow> r = [c]
                                 | Ref alt p \<Rightarrow> render_segment fs dir g = Inr r) (scan md) rs
         \<and> md = concat (map segment_source (scan md))
         \<and> inline_images fs dir md = Inr (concat rs))
   \<and> ((\<forall>t\<in>set (suffixes md). regex_exec_here t = None) \<longrightarrow> inline_images fs dir md = Inr md)"
proof
  from assemble_pieces [of fs dir "scan md"] obtain rs where
    rs: "list_all2 (\<lambda>g r. render_segment fs dir g = Inr r) (scan md) rs"
      "assemble fs dir (scan md) = Inr (concat rs)" by blast
  have "list_all2 (\<lambda>g r. case g of Plain c \<Rightarrow> r = [c]
                               | Ref alt p \<Rightarrow> render_segment fs dir g = Inr r) (scan md) rs"
    using rs(1) by (rule list_all2_mono) (auto split: segment.splits)
  with rs(2) show "\<exists>rs. list_all2 (\<lambda>g r. case g of Plain c \<Rightarrow> r = [c]
                                 | Ref alt p \<Rightarrow> render_segment fs dir g = Inr r) (scan md) rs
         \<and> md = concat (map segment_source (scan md))
         \<and> inline_images fs dir md = Inr (concat rs)"
    unfolding inline_images_def scan_source by blast
next
  show "(\<forall>t\<in>set (suffixes md). regex_exec_here t = None) \<longrightarrow> inline_images fs dir md = Inr md"
  proof
    assume "\<forall>t\<in>set (suffixes md). regex_exec_here t = None"
    then have sc: "scan md = map Plain md" by (rule scan_no_match)
    have "assemble fs dir (map Plain md) = Inr (concat (map segment_source (map Plain md)))"
      by (rule assemble_plain) auto
    also have "concat (map segment_source (map Plain md)) = md"
      using scan_source [of md] unfolding sc .
    finally show "inline_images fs dir md = Inr md"
      unfolding inline_images_def sc .
  qed
qed

text \<open>
  Claim C2. When the file of a matched reference cannot be read, the replace still
  returns a text (no exception leaves it), that reference stands in the output exactly
  as in the input, and every segment before and after it is rendered by the callback as
  it would be anywhere.
\<close>

theorem unreadable_reference_left_unchanged:
  assumes "scan md = gs @ Ref alt p # hs" and "fs (path_resolve dir p) = Inl err"
  shows "\<exists>rs1 rs2. list_all2 (\<lambda>g r. render_segment fs dir g = Inr r) gs rs1
            \<and> list_all2 (\<lambda>g r. render_segment fs dir g = Inr r) hs rs2
            \<and> inline_images fs dir md = Inr (concat rs1 @ match_text alt p @ concat rs2)"
proof -
  from assemble_pieces [of fs dir gs] obtain rs1 where
    1: "list_all2 (\<lambda>g r. render_segment fs dir g = Inr r) gs rs1"
      "assemble fs dir gs = Inr (concat rs1)" by blast
  from assemble_pieces [of fs dir hs] obtain rs2 where
    2: "list_all2 (\<lambda>g r. render_segment fs dir g = Inr r) hs rs2"
      "assemble fs dir hs = Inr (concat rs2)" by blast
  have "assemble fs dir (Ref alt p # hs) = Inr (match_text alt p @ concat rs2)"
    using render_ref_unreadable [where fs = fs and dir = dir and alt = alt, OF assms(2)] 2(2)
    by simp
  from assemble_append [OF 1(2) this] have
    "inline_images fs dir md = Inr (concat rs1 @ match_text alt p @ concat rs2)"
    unfolding inline_images_def assms(1) .
  with 1(1) 2(1) show ?thesis by blast
qed

text \<open>
  Claim C10. \<^verbatim>\<open>imageToBase64\<close> returns for every path: \<^verbatim>\<open>null\<close> when the read
  throws, a string \<^verbatim>\<open>data:<media type>;base64,<payload>\<close> otherwise; no exception
  leaves it, and so none leaves the inlining pass.
\<close>

theorem imageToBase64_never_throws:
  "(\<exists>r. imageToBase64 fs imgPath = Inr r \<and>
       (case fs imgPath of
          Inl e \<Rightarrow> r = None
        | Inr bytes \<Rightarrow>
            r = Some (''data:'' @ mimeType (drop 1 (extname imgPath)) @ '';base64,'' @ base64 bytes)))
   \<and> (\<exists>out. inline_images fs dir md = Inr out)"
proof
  show "\<exists>r. imageToBase64 fs imgPath = Inr r \<and>
       (case fs imgPath of
          Inl e \<Rightarrow> r = None
        | Inr bytes \<Rightarrow>
            r = Some (''data:'' @ mimeType (drop 1 (extname imgPath)) @ '';base64,'' @ base64 bytes))"
    by (simp add: imageToBase64_cases split: sum.splits)
  show "\<exists>out. inline_images fs dir md = Inr out"
    using assemble_pieces [of fs dir "scan md"] unfolding inline_images_def by blast
qed

section \<open>The inliner at concrete documents\<close>

text \<open>
  Claim C1 asks that a matched reference whose file is read holds the data URI and no
  relative path any more. At the document \<^verbatim>\<open>![./a.png](./a.png)\<close>, with the file
  \<^verbatim>\<open>/in/a.png\<close> readable, the regular expression matches, the file is read, and the
  code returns \<^verbatim>\<open>![data:image/png;base64,YWJj](./a.png)\<close>: the data URI stands in the
  alt text and the relative path is still in the parentheses.
\<close>

theorem relative_path_remains_in_output:
  "regex_exec_here ''![./a.png](./a.png)'' = Some (''./a.png'', ''a'', ''png'')
   \<and> fs_one ''/in/a.png'' ''abc'' (path_resolve ''/in'' ''./a.png'') = Inr ''abc''
   \<and> inline_images (fs_one ''/in/a.png'' ''abc'') ''/in'' ''![./a.png](./a.png)''
       = Inr ''![data:image/png;base64,YWJj](./a.png)''
   \<and> sublist ''./a.png'' ''![data:image/png;base64,YWJj](./a.png)''"
proof (intro conjI)
  show "regex_exec_here ''![./a.png](./a.png)'' = Some (''./a.png'', ''a'', ''png'')"
    by (rule demo_alt_match)
  show "fs_one ''/in/a.png'' ''abc'' (path_resolve ''/in'' ''./a.png'') = Inr ''abc''"
    unfolding demo_resolve_a by (rule fs_one_hit)
  show "inline_images (fs_one ''/in/a.png'' ''abc'') ''/in'' ''![./a.png](./a.png)''
       = Inr ''![data:image/png;base64,YWJj](./a.png)''"
    by (rule inline_single [OF demo_alt_scan demo_alt_render])
  show "sublist ''./a.png'' ''![data:image/png;base64,YWJj](./a.png)''"
    by code_simp
qed

theorem inlined_reference_data_uri_witness:
  "render_segment (fs_one ''/in/a.jpg'' ''abc'') ''/in'' (Ref ''x'' ''./a.jpg'')
     = Inr ''![x](data:image/jpeg;base64,YWJj)''
   \<and> \<not> sublist ''./a.jpg'' ''![x](data:image/jpeg;base64,YWJj)''"
proof -
  have c: "capture_path ''a'' ''jpg'' = ''./a.jpg''" by (simp add: capture_path_def)
  have f: "fs_one ''/in/a.jpg'' ''abc'' (path_resolve ''/in'' (capture_path ''a'' ''jpg'')) = Inr ''abc''"
    unfolding c demo_resolve_jpg by (rule fs_one_hit)
  have a: "\<not> sublist (capture_path ''a'' ''jpg'') ''x''" unfolding c by code_simp
  have b: "\<not> sublist '']('' (capture_path ''a'' ''jpg'')" unfolding c by code_simp
  have s: "''a'' \<noteq> []" "last ''a'' \<noteq> CHR ''/''" by simp_all
  from inlined_reference_data_uri
    [where fs = "fs_one ''/in/a.jpg'' ''abc''" and dir = "''/in''" and bytes = "''abc''",
      OF demo_jpg_match f a b s]
  show ?thesis unfolding c base64_abc by simp
qed

theorem replacement_at_first_occurrence_witness:
  "render_segment (fs_one ''/in/a.png'' ''abc'') ''/in'' (Ref ''./a.png'' ''./a.png'')
     = Inr ''![data:image/png;base64,YWJj](./a.png)''"
proof -
  let ?fs = "fs_one ''/in/a.png'' ''abc''"
  have m: "Ref ''./a.png'' ''./a.png'' \<in> set (scan ''![./a.png](./a.png)'')"
    unfolding demo_alt_scan by simp
  have f: "?fs (path_resolve ''/in'' ''./a.png'') = Inr ''abc''"
    unfolding demo_resolve_a by (rule fs_one_hit)
  from replacement_at_first_occurrence
    [where fs = ?fs and dir = "''/in''" and bytes = "''abc''", OF m f]
  obtain uri pre post where
    u: "imageToBase64 ?fs (path_resolve ''/in'' ''./a.png'') = Inr (Some uri)"
    and r: "render_segment ?fs ''/in'' (Ref ''./a.png'' ''./a.png'') = Inr (pre @ uri @ post)"
    and a: "sublist ''./a.png'' ''./a.png'' \<longrightarrow>
             (\<exists>u v. ''./a.png'' = u @ ''./a.png'' @ v \<and> pre = ''!['' @ u
                    \<and> post = v @ '']('' @ ''./a.png'' @ '')'')"
    by blast
  from a obtain u v where uv: "''./a.png'' = u @ ''./a.png'' @ v" "pre = ''!['' @ u"
    "post = v @ '']('' @ ''./a.png'' @ '')''" by auto
  from uv(1) have "length ''./a.png'' = length (u @ ''./a.png'' @ v)" by (rule arg_cong)
  then have "u = []" "v = []" by simp_all
  moreover have "uri = ''data:image/png;base64,YWJj''"
    using u imageToBase64_eval [where fs = ?fs and bytes = "''abc''",
        OF fs_one_hit demo_ext_a base64_abc]
    unfolding demo_resolve_a by (simp add: mimeType_def)
  ultimately show ?thesis using r uv(2,3) by simp
qed

theorem inliner_preserves_text_outside_references_witness:
  "inline_images (fs_one ''/in/a.png'' ''abc'') ''/in'' ''![x](a.png)'' = Inr ''![x](a.png)''"
  using inliner_preserves_text_outside_references
    [of "fs_one ''/in/a.png'' ''abc''" "''/in''" "''![x](a.png)''"] demo_plain_none
  by blast

theorem unreadable_reference_left_unchanged_witness:
  "inline_images (fs_one ''/in/a.png'' ''abc'') ''/in'' ''![x](./missing.png) ![y](./a.png)''
     = Inr ''![x](./missing.png) ![y](data:image/png;base64,YWJj)''"
proof -
  let ?fs = "fs_one ''/in/a.png'' ''abc''"
  have f: "?fs (path_resolve ''/in'' ''./missing.png'') = Inl FileError"
    unfolding demo_resolve_missing by (rule fs_one_miss) simp
  from unreadable_reference_left_unchanged
    [where fs = ?fs and dir = "''/in''" and err = FileError, OF demo_two_scan f]
  obtain rs1 rs2 where
    l1: "list_all2 (\<lambda>g r. render_segment ?fs ''/in'' g = Inr r) [] rs1"
    and l2: "list_all2 (\<lambda>g r. render_segment ?fs ''/in'' g = Inr r)
               [Plain CHR '' '', Ref ''y'' ''./a.png''] rs2"
    and out: "inline_images ?fs ''/in'' ''![x](./missing.png) ![y](./a.png)''
               = Inr (concat rs1 @ match_text ''x'' ''./missing.png'' @ concat rs2)"
    by blast
  from l1 have "rs1 = []" by simp
  moreover from l2 have "rs2 = ['' '', ''![y](data:image/png;base64,YWJj)'']"
    by (auto simp: list_all2_Cons1 demo_y_render simp del: render_segment.simps(2))
  ultimately show ?thesis using out by (simp add: match_text_def)
qed

theorem alt_without_path_counterexample:
  "regex_exec_here ''![./a.png](./a.png](./a.png)'' = Some (''./a.png'', ''a.png](./a'', ''png'')
   \<and> \<not> sublist ''./a.png](./a.png'' ''./a.png''
   \<and> fs_one ''/in/a.png](./a.png'' ''abc'' (path_resolve ''/in'' ''./a.png](./a.png'') = Inr ''abc''
   \<and> inline_images (fs_one ''/in/a.png](./a.png'' ''abc'') ''/in'' ''![./a.png](./a.png](./a.png)''
       = Inr ''![data:image/png;base64,YWJj](./a.png)''
   \<and> ''![data:image/png;base64,YWJj](./a.png)'' \<noteq> ''![./a.png](data:image/png;base64,YWJj)''"
proof (intro conjI)
  show "regex_exec_here ''![./a.png](./a.png](./a.png)'' = Some (''./a.png'', ''a.png](./a'', ''png'')"
    by (rule demo_straddle_match)
  show "\<not> sublist ''./a.png](./a.png'' ''./a.png''"
    by code_simp
  show "fs_one ''/in/a.png](./a.png'' ''abc'' (path_resolve ''/in'' ''./a.png](./a.png'') = Inr ''abc''"
    unfolding demo_resolve_straddle by (rule fs_one_hit)
  show "inline_images (fs_one ''/in/a.png](./a.png'' ''abc'') ''/in'' ''![./a.png](./a.png](./a.png)''
       = Inr ''![data:image/png;base64,YWJj](./a.png)''"
    by (rule inline_single [OF demo_straddle_scan demo_straddle_render])
  show "''![data:image/png;base64,YWJj](./a.png)'' \<noteq> ''![./a.png](data:image/png;base64,YWJj)''"
    by simp
qed

section \<open>The output file name\<close>

lemma replace_md_from_suffix:
  "CHR ''$'' \<notin> set repl \<Longrightarrow> replace_md_from pre (base @ ''.md'') repl = base @ repl"
proof (induction base arbitrary: pre)
  case Nil
  then show ?case by (simp add: getSubstitution_plain)
next
  case (Cons x base)
  have "length (x # base @ ''.md'') \<noteq> length ''.md''" by simp
  then have "x # base @ ''.md'' \<noteq> ''.md''" by (metis)
  with Cons show ?case by simp
qed

lemma lower_format_name:
  "toLowerCase (format_name f) = (case f of A2 \<Rightarrow> ''a2'' | A3 \<Rightarrow> ''a3'' | A4 \<Rightarrow> ''a4'' | A5 \<Rightarrow> ''a5'')"
  by (cases f) (simp_all add: toLowerCase_def lower_char_def char_of_def bit_0)

lemma output_file_name_suffix:
  "outputFileName (base @ ''.md'') f = base @ ''.'' @ toLowerCase (format_name f) @ ''.pdf''"
proof -
  have "CHR ''$'' \<notin> set (''.'' @ toLowerCase (format_name f) @ ''.pdf'')"
    unfolding lower_format_name by (cases f) simp_all
  then show ?thesis
    unfolding outputFileName_def by (rule replace_md_from_suffix)
qed

text \<open>
  Claim C6. A file name that ends in \<^verbatim>\<open>.md\<close> gets, in place of these three
  characters, a dot, the format in lower case and \<^verbatim>\<open>.pdf\<close>; \<^verbatim>\<open>a.md\<close> with A4
  gives \<^verbatim>\<open>a.a4.pdf\<close>.
\<close>

theorem output_file_name_of_markdown:
  "outputFileName (base @ ''.md'') f
     = base @ ''.'' @ (case f of A2 \<Rightarrow> ''a2'' | A3 \<Rightarrow> ''a3'' | A4 \<Rightarrow> ''a4'' | A5 \<Rightarrow> ''a5'') @ ''.pdf''
   \<and> toLowerCase (format_name f) = (case f of A2 \<Rightarrow> ''a2'' | A3 \<Rightarrow> ''a3'' | A4 \<Rightarrow> ''a4'' | A5 \<Rightarrow> ''a5'')
   \<and> outputFileName ''a.md'' A4 = ''a.a4.pdf''"
proof -
  have "outputFileName (''a'' @ ''.md'') A4 = ''a'' @ ''.'' @ ''a4'' @ ''.pdf''"
    unfolding output_file_name_suffix lower_format_name by simp
  then have "outputFileName ''a.md'' A4 = ''a.a4.pdf''" by simp
  then show ?thesis
    unfolding output_file_name_suffix lower_format_name by simp
qed

section \<open>An invalid format argument\<close>

lemma split_on_head:
  "\<exists>rest. split_on d v = takeWhile (\<lambda>c. c \<noteq> d) v # rest"
  by (induction v) (auto split: list.splits)

lemma split_on_prefix:
  "d \<notin> set k \<Longrightarrow> split_on d (k @ d # v) = k # split_on d v"
  by (induction k) (auto split: list.splits)

lemma format_value:
  "(case split_on CHR ''='' (''--format='' @ v) of
      k # w # rest \<Rightarrow> Some (toUpperCase w) | _ \<Rightarrow> None)
   = Some (toUpperCase (takeWhile (\<lambda>c. c \<noteq> CHR ''='') v))"
proof -
  have "split_on CHR ''='' (''--format'' @ CHR ''='' # v) = ''--format'' # split_on CHR ''='' v"
    by (rule split_on_prefix) simp
  moreover obtain rest where "split_on CHR ''='' v = takeWhile (\<lambda>c. c \<noteq> CHR ''='') v # rest"
    using split_on_head by blast
  ultimately show ?thesis by simp
qed

lemma parse_format_none:
  "parse_format s = None \<longleftrightarrow> s \<notin> {''A2'', ''A3'', ''A4'', ''A5''}"
  by (simp add: parse_format_def)

lemma getFormatFromArgs_invalid:
  assumes "find (prefix ''--format='') (drop 2 argv) = Some (''--format='' @ v)"
    and "toUpperCase (takeWhile (\<lambda>c. c \<noteq> CHR ''='') v) \<notin> {''A2'', ''A3'', ''A4'', ''A5''}"
  shows "getFormatFromArgs argv
           = (None, [InvalidFormat (Some (toUpperCase (takeWhile (\<lambda>c. c \<noteq> CHR ''='') v)))])"
proof -
  have "parse_format (toUpperCase (takeWhile (\<lambda>c. c \<noteq> CHR ''='') v)) = None"
    using assms(2) unfolding parse_format_none .
  then show ?thesis
    unfolding getFormatFromArgs_def Let_def assms(1) option.case format_value by simp
qed

lemma promptForFormat_choice:
  "fst (promptForFormat answer)
     = (if trim answer = ''1'' then A2 else if trim answer = ''2'' then A3
        else if trim answer = ''4'' then A5 else A4)"
  by (simp add: promptForFormat_def Let_def)

text \<open>
  Claim C4, as the code has it. Without \<^verbatim>\<open>--help\<close> and \<^verbatim>\<open>-h\<close>, when the first
  \<^verbatim>\<open>--format=\<close> argument has a value whose text up to a further equals sign, in
  upper case, is none of A2, A3, A4, A5, the program logs that value and asks at the
  prompt: the answer selects the format, A4 for an empty answer or one that is not 1 to 4.
\<close>

theorem invalid_format_falls_back_to_prompt:
  assumes "''--help'' \<notin> set argv" and "''-h'' \<notin> set argv"
    and "find (prefix ''--format='') (drop 2 argv) = Some (''--format='' @ v)"
    and "toUpperCase (takeWhile (\<lambda>c. c \<noteq> CHR ''='') v) \<notin> {''A2'', ''A3'', ''A4'', ''A5''}"
  shows "getFormatFromArgs argv
           = (None, [InvalidFormat (Some (toUpperCase (takeWhile (\<lambda>c. c \<noteq> CHR ''='') v)))])
       \<and> main_format argv answer
           = (Selected (fst (promptForFormat answer)),
              Banner # InvalidFormat (Some (toUpperCase (takeWhile (\<lambda>c. c \<noteq> CHR ''='') v)))
                # snd (promptForFormat answer) @ [FormatSelected (fst (promptForFormat answer))])
       \<and> fst (promptForFormat answer)
           = (if trim answer = ''1'' then A2 else if trim answer = ''2'' then A3
              else if trim answer = ''4'' then A5 else A4)"
proof -
  obtain f l where p: "promptForFormat answer = (f, l)"
    by (cases "promptForFormat answer") auto
  have "main_format argv answer
          = (Selected f, Banner # InvalidFormat (Some (toUpperCase (takeWhile (\<lambda>c. c \<noteq> CHR ''='') v)))
               # l @ [FormatSelected f])"
    using assms(1,2) by (simp add: main_format_def getFormatFromArgs_invalid [OF assms(3,4)] p)
  then show ?thesis
    using getFormatFromArgs_invalid [OF assms(3,4)] promptForFormat_choice [of answer]
    unfolding p by simp
qed

lemma demo_invalid_args:
  "find (prefix ''--format='') (drop 2 [''node'', ''index.js'', ''--format=A9''])
     = Some (''--format='' @ ''A9'')"
  by simp

lemma demo_invalid_value:
  "toUpperCase (takeWhile (\<lambda>c. c \<noteq> CHR ''='') ''A9'') = ''A9''"
  by (simp add: toUpperCase_def upper_char_def)

lemma demo_trim_two: "trim '' 2 '' = ''2''"
  by (simp add: trim_def is_js_space_def)

theorem invalid_format_falls_back_to_prompt_witness:
  "main_format [''node'', ''index.js'', ''--format=A9''] '' 2 ''
     = (Selected A3, [Banner, InvalidFormat (Some ''A9''), PromptMenu, FormatSelected A3])"
proof -
  have h: "''--help'' \<notin> set [''node'', ''index.js'', ''--format=A9'']"
    "''-h'' \<notin> set [''node'', ''index.js'', ''--format=A9'']" by simp_all
  have v: "toUpperCase (takeWhile (\<lambda>c. c \<noteq> CHR ''='') ''A9'') \<notin> {''A2'', ''A3'', ''A4'', ''A5''}"
    unfolding demo_invalid_value by simp
  have p: "promptForFormat '' 2 '' = (A3, [PromptMenu])"
    by (simp add: promptForFormat_def demo_trim_two)
  from invalid_format_falls_back_to_prompt [OF h demo_invalid_args v, of "'' 2 ''"]
  show ?thesis unfolding demo_invalid_value p by simp
qed

lemma demo_trim_one: "trim ''1'' = ''1''"
  by (simp add: trim_def is_js_space_def)

lemma demo_getFormat_invalid:
  "getFormatFromArgs [''node'', ''index.js'', ''--format=A9''] = (None, [InvalidFormat (Some ''A9'')])"
  by (simp add: getFormatFromArgs_def toUpperCase_def upper_char_def parse_format_def)

theorem invalid_format_not_default_counterexample:
  "''A9'' \<notin> {''A2'', ''A3'', ''A4'', ''A5''}
   \<and> main_format [''node'', ''index.js'', ''--format=A9''] ''1''
       = (Selected A2, [Banner, InvalidFormat (Some ''A9''), PromptMenu, FormatSelected A2])
   \<and> fst (promptForFormat []) = A4
   \<and> A2 \<noteq> A4"
  by (simp add: main_format_def demo_getFormat_invalid promptForFormat_def demo_trim_one trim_def
      is_js_space_def)

section \<open>The sweep of the output directory\<close>

lemma sweep_files:
  "fst (sweep env ps (files, n, log))
     = filter (\<lambda>f. \<not> (f \<in> set ps \<and> unlink_ok env f)) files"
proof (induction ps arbitrary: files n log)
  case Nil
  then show ?case by simp
next
  case (Cons p ps)
  show ?case
  proof (cases "unlink_ok env p \<and> p \<in> set files")
    case True
    then have u: "unlinkSync env p files = Inr (removeAll p files)"
      by (simp add: unlinkSync_def)
    have "fst (sweep env (p # ps) (files, n, log))
                 = filter (\<lambda>f. \<not> (f \<in> set ps \<and> unlink_ok env f)) (removeAll p files)"
      using Cons.IH by (simp add: u)
    also have "\<dots> = filter (\<lambda>f. \<not> (f \<in> set (p # ps) \<and> unlink_ok env f)) files"
      using True by (auto simp: removeAll_filter_not_eq intro: filter_cong)
    finally show ?thesis .
  next
    case False
    then have u: "unlinkSync env p files = Inl FileError"
      by (simp add: unlinkSync_def)
    have "fst (sweep env (p # ps) (files, n, log))
                 = filter (\<lambda>f. \<not> (f \<in> set ps \<and> unlink_ok env f)) files"
      using Cons.IH by (simp add: u)
    also have "\<dots> = filter (\<lambda>f. \<not> (f \<in> set (p # ps) \<and> unlink_ok env f)) files"
      using False by (auto intro: filter_cong)
    finally show ?thesis .
  qed
qed

lemma cleanOutputDir_files:
  "fst (cleanOutputDir env (Some files))
     = Some (if readdir_ok env
             then filter (\<lambda>f. \<not> (endsWith f ''.pdf'' \<and> unlink_ok env f)) files
             else files)"
proof (cases "readdir_ok env")
  case False
  then show ?thesis by (simp add: cleanOutputDir_def)
next
  case True
  let ?pdf = "filter (\<lambda>file. endsWith file ''.pdf'') files"
  have eq: "filter (\<lambda>f. \<not> (f \<in> set ?pdf \<and> unlink_ok env f)) files
          = filter (\<lambda>f. \<not> (endsWith f ''.pdf'' \<and> unlink_ok env f)) files"
    by (auto intro: filter_cong)
  show ?thesis
  proof (cases "?pdf = []")
    case True
    then have "\<forall>f \<in> set files. \<not> endsWith f ''.pdf''"
      by (simp add: filter_empty_conv)
    then have "filter (\<lambda>f. \<not> (endsWith f ''.pdf'' \<and> unlink_ok env f)) files = files"
      by (simp add: filter_id_conv)
    with True \<open>readdir_ok env\<close> show ?thesis by (simp add: cleanOutputDir_def)
  next
    case False
    obtain fs' n log where s: "sweep env ?pdf (files, 0, []) = (fs', n, log)"
      by (cases "sweep env ?pdf (files, 0, [])") auto
    have "fs' = filter (\<lambda>f. \<not> (f \<in> set ?pdf \<and> unlink_ok env f)) files"
      using sweep_files [of env ?pdf files 0 "[]"] unfolding s by simp
    with False \<open>readdir_ok env\<close> s eq show ?thesis
      by (simp add: cleanOutputDir_def Let_def)
  qed
qed

lemma cleanOutputDir_absent:
  "cleanOutputDir env None
     = (if mkdir_ok env then (Some [], [DirCreated]) else (None, [CleanupError]))"
  by (simp add: cleanOutputDir_def)

lemma cleanOutputDir_unlisted:
  "\<not> readdir_ok env \<Longrightarrow> cleanOutputDir env (Some files) = (Some files, [CleanupError])"
  by (simp add: cleanOutputDir_def)

text \<open>
  Claim C7, as the code has it. An absent directory is created when \<^verbatim>\<open>mkdirSync\<close>
  succeeds; when it throws, the error is logged and the directory stays absent. In a
  directory that is there and that \<^verbatim>\<open>readdirSync\<close> can list, every entry whose name
  does not end in \<^verbatim>\<open>.pdf\<close> stays, and every entry whose name ends in \<^verbatim>\<open>.pdf\<close> is
  removed unless its own removal fails: a failed removal keeps that entry and stops
  nothing. When the directory cannot be listed, the error is logged and every entry
  stays.
\<close>

theorem cleanup_removes_the_pdf_files:
  "(mkdir_ok env \<longrightarrow> cleanOutputDir env None = (Some [], [DirCreated]))
   \<and> (\<not> mkdir_ok env \<longrightarrow> cleanOutputDir env None = (None, [CleanupError]))
   \<and> (readdir_ok env \<longrightarrow>
         fst (cleanOutputDir env (Some files))
           = Some (filter (\<lambda>f. \<not> (suffix ''.pdf'' f \<and> unlink_ok env f)) files))
   \<and> (\<not> readdir_ok env \<longrightarrow> cleanOutputDir env (Some files) = (Some files, [CleanupError]))"
  using cleanOutputDir_files [of env files] cleanOutputDir_absent [of env]
    cleanOutputDir_unlisted [of env files]
  by (auto simp: endsWith_def)

theorem cleanup_removes_the_pdf_files_witness:
  "cleanOutputDir (demo_dir_env True) None = (Some [], [DirCreated])
   \<and> fst (cleanOutputDir (demo_dir_env True) (Some [''a.pdf'', ''b.pdf'', ''c.txt'', ''d.pdf'']))
       = Some [''b.pdf'', ''c.txt'']
   \<and> cleanOutputDir (demo_dir_env False) None = (None, [CleanupError])
   \<and> cleanOutputDir (demo_dir_env False) (Some [''a.pdf'', ''c.txt''])
       = (Some [''a.pdf'', ''c.txt''], [CleanupError])"
proof -
  have ok: "mkdir_ok (demo_dir_env True)" "readdir_ok (demo_dir_env True)"
    by (simp_all add: demo_dir_env_def)
  have no: "\<not> mkdir_ok (demo_dir_env False)" "\<not> readdir_ok (demo_dir_env False)"
    by (simp_all add: demo_dir_env_def)
  have u: "unlink_ok (demo_dir_env True) = (\<lambda>file. file \<noteq> ''b.pdf'')"
    by (simp add: demo_dir_env_def)
  have s: "suffix ''.pdf'' ''a.pdf''" "suffix ''.pdf'' ''b.pdf''" "\<not> suffix ''.pdf'' ''c.txt''"
    "suffix ''.pdf'' ''d.pdf''"
    by (simp_all add: suffix_def)
  from cleanup_removes_the_pdf_files
    [of "demo_dir_env True" "[''a.pdf'', ''b.pdf'', ''c.txt'', ''d.pdf'']"] ok
  have 1: "cleanOutputDir (demo_dir_env True) None = (Some [], [DirCreated])"
    and 2: "fst (cleanOutputDir (demo_dir_env True) (Some [''a.pdf'', ''b.pdf'', ''c.txt'', ''d.pdf'']))
       = Some [''b.pdf'', ''c.txt'']"
    unfolding u by (simp_all add: s)
  from cleanup_removes_the_pdf_files [of "demo_dir_env False" "[''a.pdf'', ''c.txt'']"] no
  have 3: "cleanOutputDir (demo_dir_env False) None = (None, [CleanupError])"
    and 4: "cleanOutputDir (demo_dir_env False) (Some [''a.pdf'', ''c.txt''])
       = (Some [''a.pdf'', ''c.txt''], [CleanupError])"
    by simp_all
  from 1 2 3 4 show ?thesis by simp
qed

theorem cleanup_fails_as_a_whole_counterexample:
  "cleanOutputDir (demo_dir_env False) None = (None, [CleanupError])
   \<and> cleanOutputDir (demo_dir_env False) (Some [''a.pdf'', ''c.txt''])
       = (Some [''a.pdf'', ''c.txt''], [CleanupError])
   \<and> suffix ''.pdf'' ''a.pdf''"
  by (simp add: cleanOutputDir_def demo_dir_env_def suffix_def)

section \<open>The page rule of the composed HTML\<close>

lemma compose_html_rule:
  "\<exists>pre post. compose_html f htmlContent = pre @ page_rule f @ post"
  unfolding compose_html_def by blast

lemma margin_table:
  "margin (formatConfigs f) = (case f of A2 \<Rightarrow> ''25mm'' | A3 \<Rightarrow> ''20mm'' | A4 \<Rightarrow> ''20mm'' | A5 \<Rightarrow> ''15mm'')"
  by (cases f) simp_all

lemma size_directive_inj: "size_directive f = size_directive g \<longleftrightarrow> f = g"
  by (cases f; cases g) (simp_all add: size_directive_def)

lemma margin_directive_eq:
  "margin_directive f = margin_directive g \<longleftrightarrow> f = g \<or> {f, g} = {A3, A4}"
  by (cases f; cases g) (auto simp: margin_directive_def)

lemma page_rule_inj: "page_rule f = page_rule g \<longleftrightarrow> f = g"
proof
  assume "page_rule f = page_rule g"
  then have "size_directive f @ nl @ ''            '' @ margin_directive f @ nl @ ''          }''
           = size_directive g @ nl @ ''            '' @ margin_directive g @ nl @ ''          }''"
    unfolding page_rule_def by simp
  moreover have "length (size_directive f) = length (size_directive g)"
    by (cases f; cases g) (simp_all add: size_directive_def)
  ultimately have "size_directive f = size_directive g" by simp
  then show "f = g" by (simp add: size_directive_inj)
qed simp

text \<open>
  Claim C8, as the code has it. The composed HTML holds the \<^verbatim>\<open>@page\<close> rule with
  \<^verbatim>\<open>size: <format> portrait;\<close> and \<^verbatim>\<open>margin: <margin>;\<close>, the margin being the one
  of the table (25mm, 20mm, 20mm, 15mm), which is also each of the four margins given to
  the printer. The page-size directives, and so the rules, of two different formats
  differ; the margin directives of A3 and A4 are the same, and only theirs.
\<close>

theorem page_rule_of_each_format:
  "(\<exists>pre post. compose_html f htmlContent =
       pre @ ''@page {'' @ nl @ ''            size: '' @ format_name f @ '' portrait;'' @ nl @
       ''            margin: '' @ margin (formatConfigs f) @ '';'' @ nl @ ''          }'' @ post)
   \<and> margin (formatConfigs f)
       = (case f of A2 \<Rightarrow> ''25mm'' | A3 \<Rightarrow> ''20mm'' | A4 \<Rightarrow> ''20mm'' | A5 \<Rightarrow> ''15mm'')
   \<and> margin_top (pdf_options_of f out) = margin (formatConfigs f)
   \<and> margin_bottom (pdf_options_of f out) = margin (formatConfigs f)
   \<and> margin_left (pdf_options_of f out) = margin (formatConfigs f)
   \<and> margin_right (pdf_options_of f out) = margin (formatConfigs f)
   \<and> (f \<noteq> g \<longrightarrow> size_directive f \<noteq> size_directive g \<and> page_rule f \<noteq> page_rule g)
   \<and> (margin_directive f = margin_directive g \<longleftrightarrow> f = g \<or> {f, g} = {A3, A4})"
proof -
  from compose_html_rule [of f htmlContent] obtain pre post where
    "compose_html f htmlContent = pre @ page_rule f @ post" by blast
  then have "compose_html f htmlContent =
       pre @ ''@page {'' @ nl @ ''            size: '' @ format_name f @ '' portrait;'' @ nl @
       ''            margin: '' @ margin (formatConfigs f) @ '';'' @ nl @ ''          }'' @ post"
    by (simp add: page_rule_def size_directive_def margin_directive_def)
  then have "\<exists>pre post. compose_html f htmlContent =
       pre @ ''@page {'' @ nl @ ''            size: '' @ format_name f @ '' portrait;'' @ nl @
       ''            margin: '' @ margin (formatConfigs f) @ '';'' @ nl @ ''          }'' @ post"
    by blast
  then show ?thesis
    using margin_table [of f] margin_directive_eq [of f g]
    by (simp add: size_directive_inj page_rule_inj pdf_options_of_def)
qed

theorem page_rule_of_each_format_witness:
  "size_directive A4 \<noteq> size_directive A5 \<and> page_rule A4 \<noteq> page_rule A5
   \<and> margin (formatConfigs A4) = ''20mm''"
  using page_rule_of_each_format [of A4 "[]" "[]" A5] by simp

theorem margin_directives_coincide_counterexample:
  "A3 \<noteq> A4 \<and> margin_directive A3 = margin_directive A4
   \<and> margin (formatConfigs A3) = ''20mm'' \<and> margin (formatConfigs A4) = ''20mm''"
  by (simp add: margin_directive_def)

section \<open>The browser of a conversion\<close>

lemma convert_renders:
  assumes "exists_file w (path_join (INPUT_DIR dirname) fileName)"
    and "read_file w (path_join (INPUT_DIR dirname) fileName) = Inr md"
  shows "\<exists>inlined.
           convertMarkdownToPdf pp marked dirname w fileName format
             = render_pdf pp (compose_html format (marked inlined))
                 (pdf_options_of format
                    (path_join (OUTPUT_DIR dirname) (outputFileName fileName format))) w"
proof -
  obtain inlined where "inline_images (read_file w) (INPUT_DIR dirname) md = Inr inlined"
    using assemble_pieces [of "read_file w" "INPUT_DIR dirname" "scan md"]
    unfolding inline_images_def by blast
  then have "convertMarkdownToPdf pp marked dirname w fileName format
             = render_pdf pp (compose_html format (marked inlined))
                 (pdf_options_of format
                    (path_join (OUTPUT_DIR dirname) (outputFileName fileName format))) w"
    using assms by (simp add: convertMarkdownToPdf_def Let_def)
  then show ?thesis by blast
qed

lemma convert_cases:
  "convertMarkdownToPdf pp marked dirname w fileName format = (Inr (), w)
   \<or> (\<exists>e. convertMarkdownToPdf pp marked dirname w fileName format = (Inl e, w))
   \<or> (\<exists>html opts. convertMarkdownToPdf pp marked dirname w fileName format
         = render_pdf pp html opts w)"
  by (auto simp: convertMarkdownToPdf_def Let_def split: sum.splits)

lemma render_pdf_all_ok:
  assumes "newPage_ok pp" "setContent_ok pp html" "pdf_ok pp opts" "close_ok pp"
  shows "open_browsers (snd (render_pdf pp html opts w)) = open_browsers w"
  using assms by (simp add: render_pdf_def Let_def)

lemma render_pdf_step_fails:
  assumes "launch_ok pp" "newPage_ok pp" "\<not> setContent_ok pp html \<or> \<not> pdf_ok pp opts"
  shows "(\<exists>e. fst (render_pdf pp html opts w) = Inl e)
       \<and> open_browsers (snd (render_pdf pp html opts w)) = open_browsers w + 1"
  using assms by (auto simp: render_pdf_def Let_def)

text \<open>
  Claim C3, as the code has it. The browser launched for a document is closed when the
  new page, the content load, the print and the close itself succeed: the number of open
  browsers is then what it was. When the content load or the print throws, the
  exception leaves \<^verbatim>\<open>convertMarkdownToPdf\<close> and the browser it launched stays open.
\<close>

theorem browser_closed_when_all_steps_succeed:
  "(newPage_ok pp \<and> (\<forall>html. setContent_ok pp html) \<and> (\<forall>opts. pdf_ok pp opts) \<and> close_ok pp
      \<longrightarrow> open_browsers (snd (convertMarkdownToPdf pp marked dirname w fileName format))
            = open_browsers w)
   \<and> (exists_file w (path_join (INPUT_DIR dirname) fileName)
        \<and> read_file w (path_join (INPUT_DIR dirname) fileName) = Inr md
        \<and> launch_ok pp \<and> newPage_ok pp
        \<and> ((\<forall>html. \<not> setContent_ok pp html) \<or> (\<forall>opts. \<not> pdf_ok pp opts))
      \<longrightarrow> (\<exists>e. fst (convertMarkdownToPdf pp marked dirname w fileName format) = Inl e)
          \<and> open_browsers (snd (convertMarkdownToPdf pp marked dirname w fileName format))
              = open_browsers w + 1)"
proof (rule conjI; rule impI)
  assume ok: "newPage_ok pp \<and> (\<forall>html. setContent_ok pp html) \<and> (\<forall>opts. pdf_ok pp opts) \<and> close_ok pp"
  from convert_cases [of pp marked dirname w fileName format]
  show "open_browsers (snd (convertMarkdownToPdf pp marked dirname w fileName format))
          = open_browsers w"
  proof (elim disjE exE)
    fix html opts
    assume "convertMarkdownToPdf pp marked dirname w fileName format = render_pdf pp html opts w"
    then show ?thesis using ok by (simp add: render_pdf_all_ok)
  qed simp_all
next
  assume h: "exists_file w (path_join (INPUT_DIR dirname) fileName)
        \<and> read_file w (path_join (INPUT_DIR dirname) fileName) = Inr md
        \<and> launch_ok pp \<and> newPage_ok pp
        \<and> ((\<forall>html. \<not> setContent_ok pp html) \<or> (\<forall>opts. \<not> pdf_ok pp opts))"
  then obtain inlined where c:
    "convertMarkdownToPdf pp marked dirname w fileName format
       = render_pdf pp (compose_html format (marked inlined))
           (pdf_options_of format
              (path_join (OUTPUT_DIR dirname) (outputFileName fileName format))) w"
    using convert_renders [of w dirname fileName md pp marked format] by blast
  have "\<not> setContent_ok pp (compose_html format (marked inlined))
        \<or> \<not> pdf_ok pp (pdf_options_of format
              (path_join (OUTPUT_DIR dirname) (outputFileName fileName format)))"
    using h by blast
  with h show "(\<exists>e. fst (convertMarkdownToPdf pp marked dirname w fileName format) = Inl e)
          \<and> open_browsers (snd (convertMarkdownToPdf pp marked dirname w fileName format))
              = open_browsers w + 1"
    unfolding c by (intro render_pdf_step_fails) simp_all
qed

lemma demo_input_path: "path_join (INPUT_DIR ''/app/src'') ''a.md'' = ''/app/markdown/a.md''"
  by code_simp

theorem browser_closed_when_all_steps_succeed_witness:
  "open_browsers (snd (convertMarkdownToPdf (demo_browser True) (\<lambda>s. s) ''/app/src'' demo_world
       ''a.md'' A4)) = 0
   \<and> open_browsers (snd (convertMarkdownToPdf (demo_browser False) (\<lambda>s. s) ''/app/src'' demo_world
       ''a.md'' A4)) = 1"
proof -
  have e: "exists_file demo_world (path_join (INPUT_DIR ''/app/src'') ''a.md'')"
    unfolding demo_input_path by (simp add: demo_world_def)
  have r: "read_file demo_world (path_join (INPUT_DIR ''/app/src'') ''a.md'') = Inr ''hi''"
    unfolding demo_input_path by (simp add: demo_world_def fs_one_def)
  have o: "open_browsers demo_world = 0" by (simp add: demo_world_def)
  from browser_closed_when_all_steps_succeed
    [of "demo_browser True" "\<lambda>s. s" "''/app/src''" demo_world "''a.md''" A4 "''hi''"]
  have 1: "open_browsers (snd (convertMarkdownToPdf (demo_browser True) (\<lambda>s. s) ''/app/src''
       demo_world ''a.md'' A4)) = 0"
    unfolding o by (simp add: demo_browser_def)
  from browser_closed_when_all_steps_succeed
    [of "demo_browser False" "\<lambda>s. s" "''/app/src''" demo_world "''a.md''" A4 "''hi''"] e r
  have 2: "open_browsers (snd (convertMarkdownToPdf (demo_browser False) (\<lambda>s. s) ''/app/src''
       demo_world ''a.md'' A4)) = 1"
    unfolding o by (simp add: demo_browser_def)
  from 1 2 show ?thesis by simp
qed

theorem browser_left_open_counterexample:
  "launch_ok (demo_browser False)
   \<and> open_browsers demo_world = 0
   \<and> fst (convertMarkdownToPdf (demo_browser False) (\<lambda>s. s) ''/app/src'' demo_world ''a.md'' A4)
       = Inl ContentError
   \<and> open_browsers (snd (convertMarkdownToPdf (demo_browser False) (\<lambda>s. s) ''/app/src''
       demo_world ''a.md'' A4)) = 1"
proof -
  have e: "exists_file demo_world (path_join (INPUT_DIR ''/app/src'') ''a.md'')"
    unfolding demo_input_path by (simp add: demo_world_def)
  have r: "read_file demo_world (path_join (INPUT_DIR ''/app/src'') ''a.md'') = Inr ''hi''"
    unfolding demo_input_path by (simp add: demo_world_def fs_one_def)
  from convert_renders [OF e r, of "demo_browser False" "\<lambda>s. s" A4]
  obtain inlined where
    "convertMarkdownToPdf (demo_browser False) (\<lambda>s. s) ''/app/src'' demo_world ''a.md'' A4
       = render_pdf (demo_browser False) (compose_html A4 inlined)
           (pdf_options_of A4 (path_join (OUTPUT_DIR ''/app/src'') (outputFileName ''a.md'' A4)))
           demo_world"
    by auto
  then show ?thesis
    by (simp add: render_pdf_def demo_browser_def Let_def demo_world_def)
qed

end
